theory Spec2Isabelle
  imports Main
begin

section \<open>Type model (interpreter.ts, section 1)\<close>

text \<open>
  The union \<^verbatim>\<open>Type\<close> of interpreter.ts: nine primitive tags (string literals) and
  three structured shapes. The \<^verbatim>\<open>properties\<close> record of an object type is kept as the list of its
  own entries in key order (what \<^verbatim>\<open>Object.keys\<close> enumerates). A JavaScript object
  holds each own key once; \<open>wf_Type\<close> below states that.
\<close>

datatype tag =
    Tnumber | Tstring | Tboolean | Tnull | Tundefined | Tbigint | Tsymbol | Tvoid | Tany

datatype Type =
    Prim tag
  | T_function "Type list" Type
  | T_array Type
  | T_object "(string \<times> Type) list"

text \<open>
  \<^verbatim>\<open>compareTypes\<close> (lines 41-72). \<open>Prim\<close> is the case \<^verbatim>\<open>typeof t === "string"\<close>, the
  other three constructors the case \<^verbatim>\<open>typeof t === "object"\<close> with the given
  \<^verbatim>\<open>kind\<close>. \<open>compareParams\<close> is the indexed loop over \<^verbatim>\<open>a.paramTypes\<close> (entered only
  when both lengths agree), \<open>compareProps\<close> the loop over \<^verbatim>\<open>aKeys\<close>. In the latter
  \<^verbatim>\<open>key in b.properties\<close> is own-key membership: a key that \<^verbatim>\<open>b.properties\<close> would
  only inherit from \<^verbatim>\<open>Object.prototype\<close> yields a host function or object there, which
  \<^verbatim>\<open>compareTypes\<close> rejects against every Type, so the loop returns false either way.
\<close>

fun compareTypes :: "Type \<Rightarrow> Type \<Rightarrow> bool"
  and compareParams :: "Type list \<Rightarrow> Type list \<Rightarrow> bool"
  and compareProps :: "(string \<times> Type) list \<Rightarrow> (string \<times> Type) list \<Rightarrow> bool"
where
  "compareTypes (Prim a) (Prim b) = (a = b)"
| "compareTypes (T_function ps r) (T_function qs s) =
     (if length ps \<noteq> length qs then False
      else if \<not> compareParams ps qs then False
      else compareTypes r s)"
| "compareTypes (T_array e) (T_array f) = compareTypes e f"
| "compareTypes (T_object ps) (T_object qs) =
     (if length ps \<noteq> length qs then False else compareProps ps qs)"
| "compareTypes a b = False"
| "compareParams [] qs = True"
| "compareParams (p # ps) [] = False"
| "compareParams (p # ps) (q # qs) =
     (if \<not> compareTypes p q then False else compareParams ps qs)"
| "compareProps [] bprops = True"
| "compareProps ((key, t) # rest) bprops =
     (case map_of bprops key of
        None \<Rightarrow> False
      | Some u \<Rightarrow> if \<not> compareTypes t u then False else compareProps rest bprops)"

text \<open>
  Well-formed Type values: the own keys of every \<^verbatim>\<open>properties\<close> record are pairwise
  different, at every depth.
\<close>

fun wf_Type :: "Type \<Rightarrow> bool" where
  "wf_Type (Prim t) = True"
| "wf_Type (T_function ps r) = (list_all wf_Type ps \<and> wf_Type r)"
| "wf_Type (T_array e) = wf_Type e"
| "wf_Type (T_object ps) = (distinct (map fst ps) \<and> list_all (\<lambda>kt. wf_Type (snd kt)) ps)"


section \<open>Runtime values and the execution context (interpreter.ts, section 3)\<close>

text \<open>
  The model covers the node classes below (declarations, assignment, the signal nodes,
  function literals, arrow functions, calls, literals, references and the control-flow
  nodes other than \<^verbatim>\<open>ForEachNode\<close> and \<^verbatim>\<open>SwitchNode\<close>). Operator, method, array, object
  and custom nodes are not part of it, so runtime values are scalars, callables,
  \<^verbatim>\<open>Error\<close> objects, the promise that \<^verbatim>\<open>fetch\<close> returns, and what a \<^verbatim>\<open>variables\<close>
  record inherits from \<^verbatim>\<open>Object.prototype\<close> (below). A literal is a number, a string, a
  boolean, \<^verbatim>\<open>null\<close>, \<^verbatim>\<open>undefined\<close> or a bigint; a literal number is an integer, and no
  arithmetic is modelled.
\<close>

datatype scalar =
    PNumber int | PString string | PBoolean bool | PNull | PUndefined | PBigint int

datatype builtin =
    B_print | B_typeOf | B_now | B_random | B_isNaN | B_abs | B_sqrt | B_floor | B_ceil
  | B_fetch

datatype signal_name = S_break | S_continue

datatype node =
    VariableDeclarationNode string string node
  | AssignmentNode string node
  | ReturnNode node
  | BreakNode
  | ContinueNode
  | ErrorNode node
  | FunctionLiteralNode "string option" "string list" "node list"
      "Type list option" "Type option" bool
  | ArrowFunctionNode "string list" node
  | FunctionCallNode string "node list"
  | LiteralNode scalar
  | VariableReferenceNode string
  | BlockNode "node list"
  | IfNode node "node list" "node list option"
  | SignalNode signal_name
  | WhileNode node "node list"
  | ForNode node node node "node list"
  | DoWhileNode "node list" node
  | TryCatchNode "node list" string "node list"

text \<open>
  An \<^verbatim>\<open>ExecutionContext\<close> object: the address of its mutable part (the \<^verbatim>\<open>variables\<close>
  record and the two flags, kept in the store) and its \<^verbatim>\<open>parent\<close>, which the
  constructor assigns once.
\<close>

datatype ExecutionContext = Context (address: nat) (parent: "ExecutionContext option")

text \<open>
  Callables: a built-in injected into the frame at the given address, the closure
  \<^verbatim>\<open>fn\<close> that \<^verbatim>\<open>FunctionLiteralNode.toFunction\<close> returns (parameters, body, captured
  context, and the address of its \<^verbatim>\<open>memoize\<close> cache when the node is pure), the
  closure of \<^verbatim>\<open>ArrowFunctionNode.toFunction\<close>, and the function that
  \<^verbatim>\<open>Object.prototype\<close> holds under the given name (\<^verbatim>\<open>toString\<close>, \<^verbatim>\<open>constructor\<close>, ...).
  \<open>VObjectPrototype\<close> is the object \<^verbatim>\<open>Object.prototype\<close> itself.

  Every \<^verbatim>\<open>new Error(...)\<close> of the modelled classes is one constructor of \<open>error\<close>; the
  comment gives its message. \<open>UserError\<close> keeps the value whose \<^verbatim>\<open>String(...)\<close> is the
  message. The last three are \<^verbatim>\<open>TypeError\<close>s that JavaScript itself throws: on a
  bigint, and on the destructuring of a value that is no array.
\<close>

datatype callable =
    BuiltIn builtin nat
  | FunctionClosure "string list" "node list" ExecutionContext "nat option"
  | ArrowClosure "string list" node ExecutionContext
  | HostFunction string

datatype val =
    VScalar scalar
  | VFunction callable
  | VError error
  | VPromise
  | VObjectPrototype
and error =
    UndefinedVariable string  \<comment> \<open>Undefined variable: name\<close>
  | ExpectedFunctionLiteral string  \<comment> \<open>Variable 'name' expected a function literal\<close>
  | UnsupportedVariableType string  \<comment> \<open>Unsupported variable type: kind\<close>
  | VariableExpectedGot string string string  \<comment> \<open>Variable 'name' expected E, got G\<close>
  | FunctionLiteralNotExecutable  \<comment> \<open>Function literal must be transformed ...\<close>
  | ArrowFunctionNotExecutable  \<comment> \<open>Arrow function must be transformed ...\<close>
  | ArgumentCountMismatch  \<comment> \<open>Argument count mismatch.\<close>
  | NotCallable string  \<comment> \<open>'name' is not callable\<close>
  | ConditionMustBeBoolean  \<comment> \<open>Condition must be boolean\<close>
  | UserError val  \<comment> \<open>ErrorNode: new Error(String(msg))\<close>
  | UndefinedVariableType string  \<comment> \<open>Undefined variable (type): name\<close>
  | TypeMismatchInDeclaration string Type Type  \<comment> \<open>Type mismatch in declaration of 'name': expected E, got A\<close>
  | TypeMismatchInAssignment string Type Type  \<comment> \<open>Type mismatch in assignment to 'name': expected C, got N\<close>
  | ReturnTypeMismatch Type Type  \<comment> \<open>Return type mismatch: expected D, got B\<close>
  | ArgumentCountMismatchInCall  \<comment> \<open>Argument count mismatch in call\<close>
  | ArgTypeMismatch nat Type Type  \<comment> \<open>Arg type mismatch at position i: expected P got A\<close>
  | NotAFunction string  \<comment> \<open>'name' is not a function\<close>
  | BigIntNotSerializable  \<comment> \<open>TypeError of JSON.stringify on a bigint\<close>
  | BigIntToNumber  \<comment> \<open>TypeError: cannot convert a BigInt value to a number\<close>
  | ValidatorNotIterable  \<comment> \<open>TypeError: validator is not iterable\<close>

text \<open>What a \<^verbatim>\<open>throw\<close> carries: the three control signals or an \<^verbatim>\<open>Error\<close>.\<close>

datatype signal = ReturnSignal val | BreakSignal | ContinueSignal | Error error

text \<open>
  \<^verbatim>\<open>JSON.stringify(args)\<close>, the key of the \<^verbatim>\<open>memoize\<close> cache. The JSON text is
  represented by the list of JSON values it denotes (two argument lists have the same
  text exactly when they have the same list). Inside an array \<^verbatim>\<open>undefined\<close> and
  functions are written \<^verbatim>\<open>null\<close>; an \<^verbatim>\<open>Error\<close>, a promise and \<^verbatim>\<open>Object.prototype\<close>
  have no enumerable own property and are written \<^verbatim>\<open>{}\<close>. On a bigint
  \<^verbatim>\<open>JSON.stringify\<close> throws a \<^verbatim>\<open>TypeError\<close>: \<open>toJSON\<close> yields \<open>None\<close> there and
  \<open>JSON_stringify\<close> the error.
\<close>

datatype json = JNull | JNumber int | JString string | JBoolean bool | JEmptyObject

fun toJSON :: "val \<Rightarrow> json option" where
  "toJSON (VScalar (PNumber n)) = Some (JNumber n)"
| "toJSON (VScalar (PString s)) = Some (JString s)"
| "toJSON (VScalar (PBoolean b)) = Some (JBoolean b)"
| "toJSON (VScalar PNull) = Some JNull"
| "toJSON (VScalar PUndefined) = Some JNull"
| "toJSON (VScalar (PBigint n)) = None"
| "toJSON (VFunction f) = Some JNull"
| "toJSON (VError e) = Some JEmptyObject"
| "toJSON VPromise = Some JEmptyObject"
| "toJSON VObjectPrototype = Some JEmptyObject"

fun JSON_stringify :: "val list \<Rightarrow> error + json list" where
  "JSON_stringify [] = Inr []"
| "JSON_stringify (v # vs) =
     (case toJSON v of
        None \<Rightarrow> Inl BigIntNotSerializable
      | Some j \<Rightarrow>
          (case JSON_stringify vs of
             Inl e \<Rightarrow> Inl e
           | Inr js \<Rightarrow> Inr (j # js)))"

text \<open>
  The store. \<open>frames\<close> holds the mutable part of every context, \<open>caches\<close> the
  \<^verbatim>\<open>Map\<close> of every memoized closure, \<open>console\<close> what \<^verbatim>\<open>console.log\<close> has received.
  The numeric built-ins compute on the host's doubles (and \<^verbatim>\<open>now\<close>, \<^verbatim>\<open>random\<close> read
  the host's clock and generator): the \<open>k\<close>-th such call returns \<open>host k\<close>.

  The \<^verbatim>\<open>variables\<close> record of a context is a JavaScript object created by \<^verbatim>\<open>{}\<close>:
  \<open>variables\<close> holds its own properties and \<open>prototype\<close> the object it inherits
  from, which is \<^verbatim>\<open>Object.prototype\<close> at first.
\<close>

record frame =
  variables :: "string \<rightharpoonup> val"
  prototype :: val
  breakSignal :: bool
  continueSignal :: bool

record state =
  frames :: "nat \<Rightarrow> frame"
  nextContext :: nat
  caches :: "nat \<Rightarrow> (json list \<rightharpoonup> val)"
  nextCache :: nat
  console :: "val list list"
  host :: "nat \<Rightarrow> scalar"
  hostCalls :: nat

text \<open>
  The string-keyed properties of \<^verbatim>\<open>Object.prototype\<close>. All are functions in writable
  data properties, except \<^verbatim>\<open>__proto__\<close>: an accessor whose getter returns the prototype
  of the object it is read from, and whose setter replaces that prototype when it is
  given an object or \<^verbatim>\<open>null\<close> and does nothing when given another primitive.
\<close>

definition Object_prototype_names :: "string list" where
  "Object_prototype_names =
     [''constructor'', ''__defineGetter__'', ''__defineSetter__'', ''hasOwnProperty'',
      ''__lookupGetter__'', ''__lookupSetter__'', ''isPrototypeOf'',
      ''propertyIsEnumerable'', ''toString'', ''valueOf'', ''__proto__'',
      ''toLocaleString'']"

fun isObject :: "val \<Rightarrow> bool" where
  "isObject (VScalar p) = False"
| "isObject v = True"

text \<open>
  \<^verbatim>\<open>ExecutionContext.setVariable\<close> (lines 160-162), \<^verbatim>\<open>this.variables[name] = value\<close>:
  always the context's own record. The assignment writes an own property, unless the name
  is \<^verbatim>\<open>__proto__\<close>, the record has no own property of that name and inherits the
  accessor (it does from every prototype but \<^verbatim>\<open>null\<close>): then the setter runs.
\<close>

definition setVariable :: "ExecutionContext \<Rightarrow> string \<Rightarrow> val \<Rightarrow> state \<Rightarrow> state" where
  "setVariable c nm v s =
     (let f = frames s (address c)
      in s\<lparr>frames := (frames s)(address c :=
           (if nm = ''__proto__'' \<and> variables f nm = None \<and> prototype f \<noteq> VScalar PNull
            then (if isObject v \<or> v = VScalar PNull then f\<lparr>prototype := v\<rparr> else f)
            else f\<lparr>variables := (variables f)(nm \<mapsto> v)\<rparr>))\<rparr>)"

text \<open>
  What \<^verbatim>\<open>name in this.variables\<close> and \<^verbatim>\<open>this.variables[name]\<close> find beyond the own
  properties of a record: nothing under the prototype \<^verbatim>\<open>null\<close>; otherwise the
  prototype itself for \<^verbatim>\<open>__proto__\<close> and the function of \<^verbatim>\<open>Object.prototype\<close> for its
  other names.
\<close>

definition inherited :: "frame \<Rightarrow> string \<Rightarrow> val option" where
  "inherited f nm =
     (if prototype f = VScalar PNull then None
      else if nm = ''__proto__'' then Some (prototype f)
      else if nm \<in> set Object_prototype_names then Some (VFunction (HostFunction nm))
      else None)"

text \<open>\<^verbatim>\<open>ExecutionContext.getVariable\<close> (lines 154-158).\<close>

fun getVariable :: "ExecutionContext \<Rightarrow> string \<Rightarrow> state \<Rightarrow> error + val" where
  "getVariable (Context a p) nm s =
     (case variables (frames s a) nm of
        Some v \<Rightarrow> Inr v
      | None \<Rightarrow>
          (case inherited (frames s a) nm of
             Some v \<Rightarrow> Inr v
           | None \<Rightarrow>
               (case p of
                  Some q \<Rightarrow> getVariable q nm s
                | None \<Rightarrow> Inl (UndefinedVariable nm))))"

text \<open>
  Once the prototype of a record has been replaced by a value of the program (a closure,
  an \<^verbatim>\<open>Error\<close>, a promise), what the record inherits under a name other than
  \<^verbatim>\<open>__proto__\<close>, and whether an assignment to such a name is accepted, depends on the
  properties the host gives that value. \<open>hostDefined\<close> marks these accesses to a record,
  \<open>hostDefinedLookup\<close> the lookups that come to one on their way up the chain of
  contexts; \<open>setVariable\<close>, \<open>inherited\<close> and \<open>getVariable\<close> say nothing about them, and
  \<open>execute\<close> below has no result where one occurs. \<open>writeVariable\<close> is \<open>setVariable\<close>
  with that check.
\<close>

definition hostDefined :: "frame \<Rightarrow> string \<Rightarrow> bool" where
  "hostDefined f nm =
     (variables f nm = None \<and> nm \<noteq> ''__proto__''
      \<and> prototype f \<noteq> VObjectPrototype \<and> prototype f \<noteq> VScalar PNull)"

fun hostDefinedLookup :: "ExecutionContext \<Rightarrow> string \<Rightarrow> state \<Rightarrow> bool" where
  "hostDefinedLookup (Context a p) nm s =
     (case variables (frames s a) nm of
        Some v \<Rightarrow> False
      | None \<Rightarrow>
          if hostDefined (frames s a) nm then True
          else
            (case inherited (frames s a) nm of
               Some v \<Rightarrow> False
             | None \<Rightarrow>
                 (case p of
                    Some q \<Rightarrow> hostDefinedLookup q nm s
                  | None \<Rightarrow> False)))"

definition writeVariable :: "ExecutionContext \<Rightarrow> string \<Rightarrow> val \<Rightarrow> state \<Rightarrow> state option" where
  "writeVariable c nm v s =
     (if hostDefined (frames s (address c)) nm then None else Some (setVariable c nm v s))"

text \<open>
  \<^verbatim>\<open>injectBuiltIns\<close> (lines 136-152): ten \<^verbatim>\<open>setVariable\<close> calls on the new context,
  whose record still inherits from \<^verbatim>\<open>Object.prototype\<close>.
\<close>

fun builtin_name :: "builtin \<Rightarrow> string" where
  "builtin_name B_print = ''print''"
| "builtin_name B_typeOf = ''typeOf''"
| "builtin_name B_now = ''now''"
| "builtin_name B_random = ''random''"
| "builtin_name B_isNaN = ''isNaN''"
| "builtin_name B_abs = ''abs''"
| "builtin_name B_sqrt = ''sqrt''"
| "builtin_name B_floor = ''floor''"
| "builtin_name B_ceil = ''ceil''"
| "builtin_name B_fetch = ''fetch''"

definition builtins :: "builtin list" where
  "builtins =
     [B_print, B_typeOf, B_now, B_random, B_isNaN, B_abs, B_sqrt, B_floor, B_ceil, B_fetch]"

definition injectBuiltIns :: "ExecutionContext \<Rightarrow> state \<Rightarrow> state" where
  "injectBuiltIns c s =
     fold (\<lambda>b. setVariable c (builtin_name b) (VFunction (BuiltIn b (address c)))) builtins s"

text \<open>
  The constructor (lines 131-134): a new object with an empty \<^verbatim>\<open>variables\<close> record and
  both flags false, then \<^verbatim>\<open>injectBuiltIns\<close>. \<^verbatim>\<open>createChildContext\<close> (lines 164-166)
  is the constructor with \<^verbatim>\<open>this\<close> as parent.
\<close>

definition new_ExecutionContext :: "ExecutionContext option \<Rightarrow> state \<Rightarrow> ExecutionContext \<times> state" where
  "new_ExecutionContext p s =
     (let c = Context (nextContext s) p;
          s1 = s\<lparr>frames := (frames s)(nextContext s :=
                    \<lparr>variables = Map.empty, prototype = VObjectPrototype,
                     breakSignal = False, continueSignal = False\<rparr>),
                  nextContext := Suc (nextContext s)\<rparr>
      in (c, injectBuiltIns c s1))"

definition createChildContext :: "ExecutionContext \<Rightarrow> state \<Rightarrow> ExecutionContext \<times> state" where
  "createChildContext c s = new_ExecutionContext (Some c) s"

section \<open>Execution pass (interpreter.ts, section 4 onwards)\<close>

text \<open>
  JavaScript's \<^verbatim>\<open>typeof\<close>, \<^verbatim>\<open>Boolean(...)\<close> and the test \<^verbatim>\<open>typeof v === "boolean"\<close>
  on the values of the model.
\<close>

fun typeof :: "val \<Rightarrow> string" where
  "typeof (VScalar (PNumber n)) = ''number''"
| "typeof (VScalar (PString s)) = ''string''"
| "typeof (VScalar (PBoolean b)) = ''boolean''"
| "typeof (VScalar PNull) = ''object''"
| "typeof (VScalar PUndefined) = ''undefined''"
| "typeof (VScalar (PBigint n)) = ''bigint''"
| "typeof (VFunction f) = ''function''"
| "typeof (VError e) = ''object''"
| "typeof VPromise = ''object''"
| "typeof VObjectPrototype = ''object''"

fun truthy :: "val \<Rightarrow> bool" where
  "truthy (VScalar (PNumber n)) = (n \<noteq> 0)"
| "truthy (VScalar (PString s)) = (s \<noteq> [])"
| "truthy (VScalar (PBoolean b)) = b"
| "truthy (VScalar PNull) = False"
| "truthy (VScalar PUndefined) = False"
| "truthy (VScalar (PBigint n)) = (n \<noteq> 0)"
| "truthy (VFunction f) = True"
| "truthy (VError e) = True"
| "truthy VPromise = True"
| "truthy VObjectPrototype = True"

fun asBoolean :: "val \<Rightarrow> bool option" where
  "asBoolean (VScalar (PBoolean b)) = Some b"
| "asBoolean v = None"

text \<open>
  The table \<^verbatim>\<open>typeChecks\<close> of \<^verbatim>\<open>VariableDeclarationNode.execute\<close> (lines 260-272),
  key by key, and the text \<^verbatim>\<open>got\<close> of its error message (lines 279-280). No value of
  the model is an array. The table is an object literal: under a name of
  \<^verbatim>\<open>Object.prototype\<close> the lookup of line 273 finds a function (or that object), which
  line 277 cannot destructure.
\<close>

definition typeChecks :: "(string \<times> ((val \<Rightarrow> bool) \<times> string)) list" where
  "typeChecks =
     [(''number'', (\<lambda>v. typeof v = ''number'', ''number'')),
      (''string'', (\<lambda>v. typeof v = ''string'', ''string'')),
      (''boolean'', (\<lambda>v. typeof v = ''boolean'', ''boolean'')),
      (''undefined'', (\<lambda>v. v = VScalar PUndefined, ''undefined'')),
      (''null'', (\<lambda>v. v = VScalar PNull, ''null'')),
      (''bigint'', (\<lambda>v. typeof v = ''bigint'', ''bigint'')),
      (''array'', (\<lambda>v. False, ''array'')),
      (''object'', (\<lambda>v. v \<noteq> VScalar PNull \<and> typeof v = ''object'', ''object''))]"

definition got :: "val \<Rightarrow> string" where
  "got v = (if v = VScalar PNull then ''null'' else typeof v)"

text \<open>
  \<^verbatim>\<open>FunctionLiteralNode.toFunction\<close> (lines 426-446) up to the closure it returns:
  a pure node gets a new, empty \<^verbatim>\<open>memoize\<close> cache (line 221). The closure's body is
  \<open>fn\<close> below. \<^verbatim>\<open>ArrowFunctionNode.toFunction\<close> (lines 501-509) likewise.
\<close>

definition FunctionLiteral_toFunction ::
  "string list \<Rightarrow> node list \<Rightarrow> bool \<Rightarrow> ExecutionContext \<Rightarrow> state \<Rightarrow> val \<times> state" where
  "FunctionLiteral_toFunction params body pure outerContext s =
     (if pure then
        (VFunction (FunctionClosure params body outerContext (Some (nextCache s))),
         s\<lparr>caches := (caches s)(nextCache s := Map.empty), nextCache := Suc (nextCache s)\<rparr>)
      else (VFunction (FunctionClosure params body outerContext None), s))"

definition ArrowFunction_toFunction ::
  "string list \<Rightarrow> node \<Rightarrow> ExecutionContext \<Rightarrow> state \<Rightarrow> val \<times> state" where
  "ArrowFunction_toFunction paramNames body c s = (VFunction (ArrowClosure paramNames body c), s)"

text \<open>
  \<^verbatim>\<open>params.forEach((p, i) => ctx.setVariable(p, args[i]))\<close>, from position \<open>i\<close> on;
  \<^verbatim>\<open>args[i]\<close> is \<^verbatim>\<open>undefined\<close> beyond the end of \<^verbatim>\<open>args\<close>. An argument given to a
  parameter named \<^verbatim>\<open>__proto__\<close> may replace the prototype of the record, so the
  assignments that follow go through \<open>writeVariable\<close>.
\<close>

definition arg_at :: "val list \<Rightarrow> nat \<Rightarrow> val" where
  "arg_at args i = (if i < length args then args ! i else VScalar PUndefined)"

fun bindFrom ::
  "nat \<Rightarrow> ExecutionContext \<Rightarrow> string list \<Rightarrow> val list \<Rightarrow> state \<Rightarrow> state option" where
  "bindFrom i c [] args s = Some s"
| "bindFrom i c (p # ps) args s =
     (case writeVariable c p (arg_at args i) s of
        None \<Rightarrow> None
      | Some s1 \<Rightarrow> bindFrom (Suc i) c ps args s1)"

definition bindParams ::
  "ExecutionContext \<Rightarrow> string list \<Rightarrow> val list \<Rightarrow> state \<Rightarrow> state option" where
  "bindParams c params args s = bindFrom 0 c params args s"

text \<open>
  The bodies of the ten built-ins (lines 137-151). \<^verbatim>\<open>isNaN\<close> and the four \<^verbatim>\<open>Math\<close>
  functions convert their first argument to a number, which throws on a bigint; what
  they compute otherwise, and what \<^verbatim>\<open>now\<close> and \<^verbatim>\<open>random\<close> read, is the host's.
\<close>

definition hostResult :: "state \<Rightarrow> (signal + val) \<times> state" where
  "hostResult s = (Inr (VScalar (host s (hostCalls s))), s\<lparr>hostCalls := Suc (hostCalls s)\<rparr>)"

fun callBuiltIn :: "builtin \<Rightarrow> val list \<Rightarrow> state \<Rightarrow> (signal + val) \<times> state" where
  "callBuiltIn B_print args s = (Inr (VScalar PUndefined), s\<lparr>console := console s @ [args]\<rparr>)"
| "callBuiltIn B_typeOf args s = (Inr (VScalar (PString (typeof (arg_at args 0)))), s)"
| "callBuiltIn B_fetch args s = (Inr VPromise, s)"
| "callBuiltIn B_now args s = hostResult s"
| "callBuiltIn B_random args s = hostResult s"
| "callBuiltIn b args s =
     (case arg_at args 0 of
        VScalar (PBigint n) \<Rightarrow> (Inl (Error BigIntToNumber), s)
      | _ \<Rightarrow> hostResult s)"

definition setBreakSignal :: "ExecutionContext \<Rightarrow> state \<Rightarrow> state" where
  "setBreakSignal c s =
     s\<lparr>frames := (frames s)(address c := (frames s (address c))\<lparr>breakSignal := True\<rparr>)\<rparr>"

definition setContinueSignal :: "ExecutionContext \<Rightarrow> state \<Rightarrow> state" where
  "setContinueSignal c s =
     s\<lparr>frames := (frames s)(address c := (frames s (address c))\<lparr>continueSignal := True\<rparr>)\<rparr>"

text \<open>
  The \<^verbatim>\<open>execute\<close> methods. A run either returns a value (\<open>Inr\<close>) or throws (\<open>Inl\<close>),
  and leaves a store. Loops and recursive calls may run forever, so \<open>execute\<close> takes a
  bound on the nesting depth of \<^verbatim>\<open>execute\<close> calls and on the number of turns of each
  loop, and yields \<open>None\<close> when the bound is reached. It also yields \<open>None\<close>, for every
  bound, at a step that the host defines: an access marked by \<open>hostDefined\<close>, or the call
  of a function inherited from \<^verbatim>\<open>Object.prototype\<close>. In the functions below the
  argument \<open>exec\<close> stands for the recursive call \<^verbatim>\<open>node.execute(context)\<close>.
\<close>

type_synonym exec =
  "node \<Rightarrow> ExecutionContext \<Rightarrow> state \<Rightarrow> ((signal + val) \<times> state) option"

text \<open>
  The loop \<^verbatim>\<open>for (const stmt of stmts) result = stmt.execute(ctx)\<close>: it yields the
  signal thrown, if any, and the last value assigned to \<^verbatim>\<open>result\<close>.
\<close>

fun execStmts ::
  "exec \<Rightarrow> node list \<Rightarrow> ExecutionContext \<Rightarrow> val \<Rightarrow> state
    \<Rightarrow> ((signal option \<times> val) \<times> state) option" where
  "execStmts exec [] c result s = Some ((None, result), s)"
| "execStmts exec (stmt # rest) c result s =
     (case exec stmt c s of
        None \<Rightarrow> None
      | Some (Inl sg, s1) \<Rightarrow> Some ((Some sg, result), s1)
      | Some (Inr v, s1) \<Rightarrow> execStmts exec rest c v s1)"

text \<open>The \<^verbatim>\<open>args.map\<close> of \<^verbatim>\<open>FunctionCallNode.execute\<close> (lines 541-545).\<close>

fun evalArgs ::
  "exec \<Rightarrow> node list \<Rightarrow> ExecutionContext \<Rightarrow> state \<Rightarrow> ((signal + val list) \<times> state) option" where
  "evalArgs exec [] c s = Some (Inr [], s)"
| "evalArgs exec (arg # rest) c s =
     (case (case arg of
              FunctionLiteralNode fname params body dpt drt pure \<Rightarrow>
                (let (v, s1) = FunctionLiteral_toFunction params body pure c s
                 in Some (Inr v, s1))
            | _ \<Rightarrow> exec arg c s) of
        None \<Rightarrow> None
      | Some (Inl sg, s1) \<Rightarrow> Some (Inl sg, s1)
      | Some (Inr v, s1) \<Rightarrow>
          (case evalArgs exec rest c s1 of
             None \<Rightarrow> None
           | Some (Inl sg, s2) \<Rightarrow> Some (Inl sg, s2)
           | Some (Inr vs, s2) \<Rightarrow> Some (Inr (v # vs), s2)))"

text \<open>The closure \<^verbatim>\<open>fn\<close> of \<^verbatim>\<open>FunctionLiteralNode.toFunction\<close> (lines 427-443).\<close>

definition fn ::
  "exec \<Rightarrow> string list \<Rightarrow> node list \<Rightarrow> ExecutionContext \<Rightarrow> val list \<Rightarrow> state
    \<Rightarrow> ((signal + val) \<times> state) option" where
  "fn exec params body outerContext args s =
     (let (localCtx, s1) = createChildContext outerContext s
      in if length args \<noteq> length params
         then Some (Inl (Error ArgumentCountMismatch), s1)
         else
           (case bindParams localCtx params args s1 of
              None \<Rightarrow> None
            | Some s2 \<Rightarrow>
                (case execStmts exec body localCtx (VScalar PUndefined) s2 of
                   None \<Rightarrow> None
                 | Some ((None, r), s3) \<Rightarrow> Some (Inr (VScalar PUndefined), s3)
                 | Some ((Some (ReturnSignal v), r), s3) \<Rightarrow> Some (Inr v, s3)
                 | Some ((Some sg, r), s3) \<Rightarrow> Some (Inl sg, s3))))"

text \<open>
  \<^verbatim>\<open>value(...evaluated)\<close>: a built-in, the closure of a function literal (wrapped by
  \<^verbatim>\<open>memoize\<close>, lines 220-231, when the node is pure), an arrow closure
  (lines 502-508), or a function of \<^verbatim>\<open>Object.prototype\<close>, whose call is the host's.
\<close>

fun call :: "exec \<Rightarrow> callable \<Rightarrow> val list \<Rightarrow> state \<Rightarrow> ((signal + val) \<times> state) option" where
  "call exec (BuiltIn b owner) args s = Some (callBuiltIn b args s)"
| "call exec (FunctionClosure params body outerContext memo) args s =
     (case memo of
        None \<Rightarrow> fn exec params body outerContext args s
      | Some cache \<Rightarrow>
          (case JSON_stringify args of
             Inl e \<Rightarrow> Some (Inl (Error e), s)
           | Inr key \<Rightarrow>
               (case caches s cache key of
                  Some cached \<Rightarrow> Some (Inr cached, s)
                | None \<Rightarrow>
                    (case fn exec params body outerContext args s of
                       None \<Rightarrow> None
                     | Some (Inl sg, s1) \<Rightarrow> Some (Inl sg, s1)
                     | Some (Inr result, s1) \<Rightarrow>
                         Some (Inr result,
                               s1\<lparr>caches :=
                                    (caches s1)(cache := (caches s1 cache)(key \<mapsto> result))\<rparr>)))))"
| "call exec (ArrowClosure paramNames body outerContext) args s =
     (let (childCtx, s1) = createChildContext outerContext s
      in case bindParams childCtx paramNames args s1 of
           None \<Rightarrow> None
         | Some s2 \<Rightarrow> exec body childCtx s2)"
| "call exec (HostFunction nm) args s = None"

text \<open>
  The loop of \<^verbatim>\<open>WhileNode.execute\<close> (lines 1066-1087), from the top of one turn, with
  the current \<^verbatim>\<open>result\<close>; the first argument bounds the number of turns. The body
  statements are executed on \<^verbatim>\<open>context\<close> (line 1074), and \<^verbatim>\<open>loopCtx\<close> is read at
  line 1085.
\<close>

fun whileLoop ::
  "nat \<Rightarrow> exec \<Rightarrow> node \<Rightarrow> node list \<Rightarrow> ExecutionContext \<Rightarrow> val \<Rightarrow> state
    \<Rightarrow> ((signal + val) \<times> state) option" where
  "whileLoop 0 exec condition body c result s = None"
| "whileLoop (Suc k) exec condition body c result s =
     (case exec condition c s of
        None \<Rightarrow> None
      | Some (Inl sg, s1) \<Rightarrow> Some (Inl sg, s1)
      | Some (Inr cond, s1) \<Rightarrow>
          (case asBoolean cond of
             None \<Rightarrow> Some (Inl (Error ConditionMustBeBoolean), s1)
           | Some b \<Rightarrow>
               if \<not> b then Some (Inr result, s1)
               else
                 (let (loopCtx, s2) = createChildContext c s1
                  in case execStmts exec body c result s2 of
                       None \<Rightarrow> None
                     | Some ((Some ContinueSignal, r), s3) \<Rightarrow>
                         whileLoop k exec condition body c r s3
                     | Some ((Some BreakSignal, r), s3) \<Rightarrow> Some (Inr r, s3)
                     | Some ((Some sg, r), s3) \<Rightarrow> Some (Inl sg, s3)
                     | Some ((None, r), s3) \<Rightarrow>
                         if breakSignal (frames s3 (address loopCtx)) then Some (Inr r, s3)
                         else whileLoop k exec condition body c r s3)))"

text \<open>
  The loop of \<^verbatim>\<open>ForNode.execute\<close> (lines 1115-1137), after \<^verbatim>\<open>init\<close>. \<open>forTry\<close> is its
  \<^verbatim>\<open>try\<close> block (lines 1121-1125): the body statements, then \<^verbatim>\<open>update\<close>.
\<close>

definition forTry ::
  "exec \<Rightarrow> node list \<Rightarrow> node \<Rightarrow> ExecutionContext \<Rightarrow> ExecutionContext \<Rightarrow> val \<Rightarrow> state
    \<Rightarrow> ((signal option \<times> val) \<times> state) option" where
  "forTry exec body update loopCtx c result s =
     (case execStmts exec body loopCtx result s of
        None \<Rightarrow> None
      | Some ((Some sg, r), s1) \<Rightarrow> Some ((Some sg, r), s1)
      | Some ((None, r), s1) \<Rightarrow>
          (case exec update c s1 of
             None \<Rightarrow> None
           | Some (Inl sg, s2) \<Rightarrow> Some ((Some sg, r), s2)
           | Some (Inr u, s2) \<Rightarrow> Some ((None, r), s2)))"

fun forLoop ::
  "nat \<Rightarrow> exec \<Rightarrow> node \<Rightarrow> node \<Rightarrow> node list \<Rightarrow> ExecutionContext \<Rightarrow> val \<Rightarrow> state
    \<Rightarrow> ((signal + val) \<times> state) option" where
  "forLoop 0 exec condition update body c result s = None"
| "forLoop (Suc k) exec condition update body c result s =
     (case exec condition c s of
        None \<Rightarrow> None
      | Some (Inl sg, s1) \<Rightarrow> Some (Inl sg, s1)
      | Some (Inr cond, s1) \<Rightarrow>
          (case asBoolean cond of
             None \<Rightarrow> Some (Inl (Error ConditionMustBeBoolean), s1)
           | Some b \<Rightarrow>
               if \<not> b then Some (Inr result, s1)
               else
                 (let (loopCtx, s2) = createChildContext c s1
                  in case forTry exec body update loopCtx c result s2 of
                       None \<Rightarrow> None
                     | Some ((Some ContinueSignal, r), s4) \<Rightarrow>
                         (case exec update c s4 of
                            None \<Rightarrow> None
                          | Some (Inl sg, s5) \<Rightarrow> Some (Inl sg, s5)
                          | Some (Inr u, s5) \<Rightarrow> forLoop k exec condition update body c r s5)
                     | Some ((Some BreakSignal, r), s4) \<Rightarrow> Some (Inr r, s4)
                     | Some ((Some sg, r), s4) \<Rightarrow> Some (Inl sg, s4)
                     | Some ((None, r), s4) \<Rightarrow> forLoop k exec condition update body c r s4)))"

text \<open>
  The loop of \<^verbatim>\<open>DoWhileNode.execute\<close> (lines 1212-1230). A \<^verbatim>\<open>continue\<close> in a
  \<^verbatim>\<open>do ... while\<close> goes to the test of line 1229, which takes the condition's value as
  JavaScript does (\<open>truthy\<close>).
\<close>

fun doWhileLoop ::
  "nat \<Rightarrow> exec \<Rightarrow> node list \<Rightarrow> node \<Rightarrow> ExecutionContext \<Rightarrow> val \<Rightarrow> state
    \<Rightarrow> ((signal + val) \<times> state) option" where
  "doWhileLoop 0 exec body condition c result s = None"
| "doWhileLoop (Suc k) exec body condition c result s =
     (let (childCtx, s1) = createChildContext c s
      in case execStmts exec body childCtx result s1 of
           None \<Rightarrow> None
         | Some ((Some BreakSignal, r), s2) \<Rightarrow> Some (Inr r, s2)
         | Some ((Some (ReturnSignal v), r), s2) \<Rightarrow> Some (Inl (ReturnSignal v), s2)
         | Some ((Some (Error err), r), s2) \<Rightarrow> Some (Inl (Error err), s2)
         | Some ((thrown, r), s2) \<Rightarrow>
             if thrown = None \<and> breakSignal (frames s2 (address childCtx))
             then Some (Inr r, s2)
             else
               (case exec condition c s2 of
                  None \<Rightarrow> None
                | Some (Inl sg, s3) \<Rightarrow> Some (Inl sg, s3)
                | Some (Inr cond, s3) \<Rightarrow>
                    if truthy cond then doWhileLoop k exec body condition c r s3
                    else Some (Inr r, s3)))"

text \<open>
  \<^verbatim>\<open>node.execute(context)\<close>, class by class; \<open>k\<close> bounds the turns of a loop node.
\<close>

fun execNode :: "exec \<Rightarrow> nat \<Rightarrow> exec" where
  "execNode exec k (VariableDeclarationNode varType nm expression) c s =
     (if varType = ''function'' then
        (case expression of
           FunctionLiteralNode fname params body dpt drt pure \<Rightarrow>
             (let (v, s1) = FunctionLiteral_toFunction params body pure c s
              in case writeVariable c nm v s1 of
                   None \<Rightarrow> None
                 | Some s2 \<Rightarrow> Some (Inr v, s2))
         | ArrowFunctionNode paramNames body \<Rightarrow>
             (let (v, s1) = ArrowFunction_toFunction paramNames body c s
              in case writeVariable c nm v s1 of
                   None \<Rightarrow> None
                 | Some s2 \<Rightarrow> Some (Inr v, s2))
         | _ \<Rightarrow> Some (Inl (Error (ExpectedFunctionLiteral nm)), s))
      else
        (case exec expression c s of
           None \<Rightarrow> None
         | Some (Inl sg, s1) \<Rightarrow> Some (Inl sg, s1)
         | Some (Inr v, s1) \<Rightarrow>
             (case map_of typeChecks varType of
                None \<Rightarrow>
                  if varType \<in> set Object_prototype_names
                  then Some (Inl (Error ValidatorNotIterable), s1)
                  else Some (Inl (Error (UnsupportedVariableType varType)), s1)
              | Some (checkFn, expected) \<Rightarrow>
                  if \<not> checkFn v
                  then Some (Inl (Error (VariableExpectedGot nm expected (got v))), s1)
                  else
                    (case writeVariable c nm v s1 of
                       None \<Rightarrow> None
                     | Some s2 \<Rightarrow> Some (Inr v, s2)))))"
| "execNode exec k (AssignmentNode nm expression) c s =
     (case exec expression c s of
        None \<Rightarrow> None
      | Some (Inl sg, s1) \<Rightarrow> Some (Inl sg, s1)
      | Some (Inr v, s1) \<Rightarrow>
          (case writeVariable c nm v s1 of
             None \<Rightarrow> None
           | Some s2 \<Rightarrow> Some (Inr v, s2)))"
| "execNode exec k (ReturnNode expression) c s =
     (case exec expression c s of
        None \<Rightarrow> None
      | Some (Inl sg, s1) \<Rightarrow> Some (Inl sg, s1)
      | Some (Inr v, s1) \<Rightarrow> Some (Inl (ReturnSignal v), s1))"
| "execNode exec k BreakNode c s = Some (Inl BreakSignal, s)"
| "execNode exec k ContinueNode c s = Some (Inl ContinueSignal, s)"
| "execNode exec k (ErrorNode message) c s =
     (case exec message c s of
        None \<Rightarrow> None
      | Some (Inl sg, s1) \<Rightarrow> Some (Inl sg, s1)
      | Some (Inr msg, s1) \<Rightarrow> Some (Inl (Error (UserError msg)), s1))"
| "execNode exec k (FunctionLiteralNode fname params body dpt drt pure) c s =
     Some (Inl (Error FunctionLiteralNotExecutable), s)"
| "execNode exec k (ArrowFunctionNode paramNames body) c s =
     Some (Inl (Error ArrowFunctionNotExecutable), s)"
| "execNode exec k (FunctionCallNode functionName args) c s =
     (if hostDefinedLookup c functionName s then None
      else
        (case getVariable c functionName s of
           Inl e \<Rightarrow> Some (Inl (Error e), s)
         | Inr v \<Rightarrow>
             (case v of
                VFunction f \<Rightarrow>
                  (case evalArgs exec args c s of
                     None \<Rightarrow> None
                   | Some (Inl sg, s1) \<Rightarrow> Some (Inl sg, s1)
                   | Some (Inr evaluated, s1) \<Rightarrow> call exec f evaluated s1)
              | _ \<Rightarrow> Some (Inl (Error (NotCallable functionName)), s))))"
| "execNode exec k (LiteralNode v) c s = Some (Inr (VScalar v), s)"
| "execNode exec k (VariableReferenceNode nm) c s =
     (if hostDefinedLookup c nm s then None
      else
        (case getVariable c nm s of
           Inl e \<Rightarrow> Some (Inl (Error e), s)
         | Inr v \<Rightarrow> Some (Inr v, s)))"
| "execNode exec k (BlockNode statements) c s =
     (let (childContext, s1) = createChildContext c s
      in case execStmts exec statements childContext (VScalar PUndefined) s1 of
           None \<Rightarrow> None
         | Some ((Some sg, r), s2) \<Rightarrow> Some (Inl sg, s2)
         | Some ((None, r), s2) \<Rightarrow> Some (Inr r, s2))"
| "execNode exec k (IfNode condition thenBranch elseBranch) c s =
     (case exec condition c s of
        None \<Rightarrow> None
      | Some (Inl sg, s1) \<Rightarrow> Some (Inl sg, s1)
      | Some (Inr cond, s1) \<Rightarrow>
          (case asBoolean cond of
             None \<Rightarrow> Some (Inl (Error ConditionMustBeBoolean), s1)
           | Some b \<Rightarrow>
               (let branch = (if b then thenBranch
                              else (case elseBranch of Some e \<Rightarrow> e | None \<Rightarrow> []));
                    (childCtx, s2) = createChildContext c s1
                in case execStmts exec branch childCtx (VScalar PUndefined) s2 of
                     None \<Rightarrow> None
                   | Some ((Some sg, r), s3) \<Rightarrow> Some (Inl sg, s3)
                   | Some ((None, r), s3) \<Rightarrow> Some (Inr r, s3))))"
| "execNode exec k (SignalNode sig) c s =
     (case sig of
        S_break \<Rightarrow> Some (Inr (VScalar PUndefined), setBreakSignal c s)
      | S_continue \<Rightarrow> Some (Inr (VScalar PUndefined), setContinueSignal c s))"
| "execNode exec k (WhileNode condition body) c s =
     whileLoop k exec condition body c (VScalar PUndefined) s"
| "execNode exec k (ForNode init condition update body) c s =
     (case exec init c s of
        None \<Rightarrow> None
      | Some (Inl sg, s1) \<Rightarrow> Some (Inl sg, s1)
      | Some (Inr v, s1) \<Rightarrow> forLoop k exec condition update body c (VScalar PUndefined) s1)"
| "execNode exec k (DoWhileNode body condition) c s =
     doWhileLoop k exec body condition c (VScalar PUndefined) s"
| "execNode exec k (TryCatchNode tryBlock catchVar catchBlock) c s =
     (let (tryCtx, s1) = createChildContext c s
      in case execStmts exec tryBlock tryCtx (VScalar PUndefined) s1 of
           None \<Rightarrow> None
         | Some ((None, r), s2) \<Rightarrow> Some (Inr r, s2)
         | Some ((Some (Error err), r), s2) \<Rightarrow>
             (let (catchCtx, s3) = createChildContext c s2;
                  s4 = setVariable catchCtx catchVar (VError err) s3
              in case execStmts exec catchBlock catchCtx (VScalar PUndefined) s4 of
                   None \<Rightarrow> None
                 | Some ((Some sg, r'), s5) \<Rightarrow> Some (Inl sg, s5)
                 | Some ((None, r'), s5) \<Rightarrow> Some (Inr r', s5))
         | Some ((Some sg, r), s2) \<Rightarrow> Some (Inl sg, s2))"

primrec execute :: "nat \<Rightarrow> exec" where
  "execute 0 = (\<lambda>nd c s. None)"
| "execute (Suc n) = execNode (execute n) n"

text \<open>
  \<^verbatim>\<open>Interpreter.execute\<close> (lines 1350-1356) on the empty store: a root context, then
  every node in order; an uncaught throw ends the run.
\<close>

definition empty_state :: "(nat \<Rightarrow> scalar) \<Rightarrow> state" where
  "empty_state h =
     \<lparr>frames = (\<lambda>a. \<lparr>variables = Map.empty, prototype = VObjectPrototype,
                      breakSignal = False, continueSignal = False\<rparr>),
      nextContext = 0, caches = (\<lambda>a. Map.empty), nextCache = 0, console = [],
      host = h, hostCalls = 0\<rparr>"

definition Interpreter_execute ::
  "nat \<Rightarrow> node list \<Rightarrow> state \<Rightarrow> ((signal + ExecutionContext) \<times> state) option" where
  "Interpreter_execute n nodes s =
     (let (context, s1) = new_ExecutionContext None s
      in case execStmts (execute n) nodes context (VScalar PUndefined) s1 of
           None \<Rightarrow> None
         | Some ((Some sg, r), s2) \<Rightarrow> Some (Inl sg, s2)
         | Some ((None, r), s2) \<Rightarrow> Some (Inr context, s2))"

section \<open>Inference pass (interpreter.ts, section 2 and the inferType methods)\<close>

text \<open>
  A \<^verbatim>\<open>TypeEnvironment\<close> object: the address of its \<^verbatim>\<open>types\<close> record in the store
  and its \<^verbatim>\<open>parent\<close>. The inference pass is modelled on the own entries of the
  \<^verbatim>\<open>types\<close> records and of the table \<^verbatim>\<open>typeMap\<close>: it is the pass for programs in which
  no variable and no declared kind bears a name of \<^verbatim>\<open>Object.prototype\<close>, under which
  these records would yield a host function in place of a Type.
\<close>

datatype TypeEnvironment = TEnv (env_address: nat) (env_parent: "TypeEnvironment option")

record tstate =
  types :: "nat \<Rightarrow> (string \<rightharpoonup> Type)"
  nextEnv :: nat

text \<open>\<^verbatim>\<open>getType\<close> (lines 103-111), \<^verbatim>\<open>setType\<close> (113-115), \<^verbatim>\<open>createChild\<close> (117-119).\<close>

fun getType :: "TypeEnvironment \<Rightarrow> string \<Rightarrow> tstate \<Rightarrow> error + Type" where
  "getType (TEnv a p) nm s =
     (case types s a nm of
        Some t \<Rightarrow> Inr t
      | None \<Rightarrow>
          (case p of
             Some q \<Rightarrow> getType q nm s
           | None \<Rightarrow> Inl (UndefinedVariableType nm)))"

definition setType :: "TypeEnvironment \<Rightarrow> string \<Rightarrow> Type \<Rightarrow> tstate \<Rightarrow> tstate" where
  "setType env nm t s =
     s\<lparr>types := (types s)(env_address env := (types s (env_address env))(nm \<mapsto> t))\<rparr>"

definition new_TypeEnvironment ::
  "TypeEnvironment option \<Rightarrow> tstate \<Rightarrow> TypeEnvironment \<times> tstate" where
  "new_TypeEnvironment p s =
     (TEnv (nextEnv s) p,
      s\<lparr>types := (types s)(nextEnv s := Map.empty), nextEnv := Suc (nextEnv s)\<rparr>)"

definition createChild :: "TypeEnvironment \<Rightarrow> tstate \<Rightarrow> TypeEnvironment \<times> tstate" where
  "createChild env s = new_TypeEnvironment (Some env) s"

text \<open>
  The table \<^verbatim>\<open>typeMap\<close> of \<^verbatim>\<open>VariableDeclarationNode.inferType\<close> (lines 292-302),
  key by key.
\<close>

definition typeMap :: "Type \<Rightarrow> (string \<times> Type) list" where
  "typeMap actualType =
     [(''n_'', Prim Tnumber),
      (''s_'', Prim Tstring),
      (''b_'', Prim Tboolean),
      (''u_'', Prim Tundefined),
      (''l_'', Prim Tnull),
      (''x_'', Prim Tbigint),
      (''a_'', actualType),
      (''o_'', actualType),
      (''f_'', actualType)]"

text \<open>\<^verbatim>\<open>LiteralNode.inferType\<close> (lines 583-594) on the scalars of the model.\<close>

fun literalType :: "scalar \<Rightarrow> Type" where
  "literalType PNull = Prim Tnull"
| "literalType (PNumber n) = Prim Tnumber"
| "literalType (PString s) = Prim Tstring"
| "literalType (PBoolean b) = Prim Tboolean"
| "literalType PUndefined = Prim Tundefined"
| "literalType (PBigint n) = Prim Tbigint"

text \<open>
  \<^verbatim>\<open>this.params[i]!\<close> as a property key in line 452: beyond the end of \<^verbatim>\<open>params\<close> it
  is \<^verbatim>\<open>undefined\<close>, whose key is the text of that word.
\<close>

definition param_at :: "string list \<Rightarrow> nat \<Rightarrow> string" where
  "param_at params i = (if i < length params then params ! i else ''undefined'')"

text \<open>
  The \<^verbatim>\<open>inferType\<close> methods. A run returns a Type (\<open>Inr\<close>) or throws an \<^verbatim>\<open>Error\<close>
  (\<open>Inl\<close>), and leaves a store of type records. \<open>inferStmts\<close> is the loop
  \<^verbatim>\<open>for (const stmt of stmts) type = stmt.inferType(env)\<close> (a \<^verbatim>\<open>forEach\<close> is the same
  loop with the type dropped), \<open>inferArgs\<close> the \<^verbatim>\<open>forEach\<close> of
  \<^verbatim>\<open>FunctionCallNode.inferType\<close> (lines 555-564), entered with as many arguments as
  parameter types.
\<close>

fun inferType :: "node \<Rightarrow> TypeEnvironment \<Rightarrow> tstate \<Rightarrow> (error + Type) \<times> tstate"
  and inferStmts ::
    "node list \<Rightarrow> TypeEnvironment \<Rightarrow> Type \<Rightarrow> tstate \<Rightarrow> (error + Type) \<times> tstate"
  and inferArgs ::
    "node list \<Rightarrow> nat \<Rightarrow> Type list \<Rightarrow> TypeEnvironment \<Rightarrow> tstate \<Rightarrow> (error + unit) \<times> tstate"
where
  "inferType (VariableDeclarationNode varType nm expression) env s =
     (case inferType expression env s of
        (Inl e, s1) \<Rightarrow> (Inl e, s1)
      | (Inr actualType, s1) \<Rightarrow>
          (case map_of (typeMap actualType) varType of
             None \<Rightarrow> (Inl (UnsupportedVariableType varType), s1)
           | Some expected \<Rightarrow>
               if \<not> compareTypes actualType expected
               then (Inl (TypeMismatchInDeclaration nm expected actualType), s1)
               else (Inr actualType, setType env nm actualType s1)))"
| "inferType (AssignmentNode nm expression) env s =
     (case getType env nm s of
        Inl e \<Rightarrow> (Inl e, s)
      | Inr currentType \<Rightarrow>
          (case inferType expression env s of
             (Inl e, s1) \<Rightarrow> (Inl e, s1)
           | (Inr newType, s1) \<Rightarrow>
               if \<not> compareTypes currentType newType
               then (Inl (TypeMismatchInAssignment nm currentType newType), s1)
               else (Inr currentType, s1)))"
| "inferType (ReturnNode expression) env s = inferType expression env s"
| "inferType BreakNode env s = (Inr (Prim Tvoid), s)"
| "inferType ContinueNode env s = (Inr (Prim Tvoid), s)"
| "inferType (ErrorNode message) env s = (Inr (Prim Tvoid), s)"
| "inferType (FunctionLiteralNode fname params body declaredParamTypes declaredReturnType pure)
       env s =
     (let (localEnv, s1) = createChild env s;
          paramTypes = (case declaredParamTypes of Some pts \<Rightarrow> pts | None \<Rightarrow> []);
          s2 = fold (\<lambda>(i, pt). setType localEnv (param_at params i) pt)
                 (enumerate 0 paramTypes) s1
      in case inferStmts body localEnv (Prim Tvoid) s2 of
           (Inl e, s3) \<Rightarrow> (Inl e, s3)
         | (Inr bodyType, s3) \<Rightarrow>
             (case (case declaredReturnType of
                      Some d \<Rightarrow> if \<not> compareTypes bodyType d then Some d else None
                    | None \<Rightarrow> None) of
                Some d \<Rightarrow> (Inl (ReturnTypeMismatch d bodyType), s3)
              | None \<Rightarrow>
                  (let t = T_function paramTypes
                             (case declaredReturnType of Some d \<Rightarrow> d | None \<Rightarrow> bodyType)
                   in (Inr t,
                       (case fname of
                          Some f \<Rightarrow> if f \<noteq> [] then setType env f t s3 else s3
                        | None \<Rightarrow> s3)))))"
| "inferType (ArrowFunctionNode paramNames body) env s =
     (let (childEnv, s1) = createChild env s;
          s2 = fold (\<lambda>p. setType childEnv p (Prim Tany)) paramNames s1;
          paramTypes = map (\<lambda>p. Prim Tany) paramNames
      in case inferType body childEnv s2 of
           (Inl e, s3) \<Rightarrow> (Inl e, s3)
         | (Inr returnType, s3) \<Rightarrow> (Inr (T_function paramTypes returnType), s3))"
| "inferType (FunctionCallNode functionName args) env s =
     (case getType env functionName s of
        Inl e \<Rightarrow> (Inl e, s)
      | Inr fnType \<Rightarrow>
          (case fnType of
             T_function pts rt \<Rightarrow>
               if length pts \<noteq> length args then (Inl ArgumentCountMismatchInCall, s)
               else
                 (case inferArgs args 0 pts env s of
                    (Inl e, s1) \<Rightarrow> (Inl e, s1)
                  | (Inr u, s1) \<Rightarrow> (Inr rt, s1))
           | _ \<Rightarrow> (Inl (NotAFunction functionName), s)))"
| "inferType (LiteralNode v) env s = (Inr (literalType v), s)"
| "inferType (VariableReferenceNode nm) env s =
     (case getType env nm s of
        Inl e \<Rightarrow> (Inl e, s)
      | Inr t \<Rightarrow> (Inr t, s))"
| "inferType (BlockNode statements) env s =
     (let (childEnv, s1) = createChild env s
      in inferStmts statements childEnv (Prim Tvoid) s1)"
| "inferType (IfNode condition thenBranch elseBranch) env s =
     (case inferType condition env s of
        (Inl e, s1) \<Rightarrow> (Inl e, s1)
      | (Inr condType, s1) \<Rightarrow>
          if condType \<noteq> Prim Tboolean then (Inl ConditionMustBeBoolean, s1)
          else
            (let (thenEnv, s2) = createChild env s1;
                 (elseEnv, s3) = createChild env s2
             in case inferStmts thenBranch thenEnv (Prim Tvoid) s3 of
                  (Inl e, s4) \<Rightarrow> (Inl e, s4)
                | (Inr t, s4) \<Rightarrow>
                    (case elseBranch of
                       None \<Rightarrow> (Inr (Prim Tvoid), s4)
                     | Some stmts \<Rightarrow>
                         (case inferStmts stmts elseEnv (Prim Tvoid) s4 of
                            (Inl e, s5) \<Rightarrow> (Inl e, s5)
                          | (Inr t', s5) \<Rightarrow> (Inr (Prim Tvoid), s5)))))"
| "inferType (SignalNode sig) env s = (Inr (Prim Tvoid), s)"
| "inferType (WhileNode condition body) env s =
     (case inferType condition env s of
        (Inl e, s1) \<Rightarrow> (Inl e, s1)
      | (Inr condType, s1) \<Rightarrow>
          if condType \<noteq> Prim Tboolean then (Inl ConditionMustBeBoolean, s1)
          else
            (let (bodyEnv, s2) = createChild env s1
             in case inferStmts body bodyEnv (Prim Tvoid) s2 of
                  (Inl e, s3) \<Rightarrow> (Inl e, s3)
                | (Inr t, s3) \<Rightarrow> (Inr (Prim Tvoid), s3)))"
| "inferType (ForNode init condition update body) env s =
     (case inferType init env s of
        (Inl e, s1) \<Rightarrow> (Inl e, s1)
      | (Inr t0, s1) \<Rightarrow>
          (case inferType condition env s1 of
             (Inl e, s2) \<Rightarrow> (Inl e, s2)
           | (Inr condType, s2) \<Rightarrow>
               if condType \<noteq> Prim Tboolean then (Inl ConditionMustBeBoolean, s2)
               else
                 (case inferType update env s2 of
                    (Inl e, s3) \<Rightarrow> (Inl e, s3)
                  | (Inr t1, s3) \<Rightarrow>
                      (let (bodyEnv, s4) = createChild env s3
                       in case inferStmts body bodyEnv (Prim Tvoid) s4 of
                            (Inl e, s5) \<Rightarrow> (Inl e, s5)
                          | (Inr t, s5) \<Rightarrow> (Inr (Prim Tvoid), s5)))))"
| "inferType (DoWhileNode body condition) env s =
     (let (childEnv, s1) = createChild env s
      in case inferStmts body childEnv (Prim Tvoid) s1 of
           (Inl e, s2) \<Rightarrow> (Inl e, s2)
         | (Inr t, s2) \<Rightarrow>
             (case inferType condition env s2 of
                (Inl e, s3) \<Rightarrow> (Inl e, s3)
              | (Inr condType, s3) \<Rightarrow>
                  if condType \<noteq> Prim Tboolean then (Inl ConditionMustBeBoolean, s3)
                  else (Inr (Prim Tvoid), s3)))"
| "inferType (TryCatchNode tryBlock catchVar catchBlock) env s =
     (let (tryEnv, s1) = createChild env s;
          (catchEnv, s2) = createChild env s1
      in case inferStmts tryBlock tryEnv (Prim Tvoid) s2 of
           (Inl e, s3) \<Rightarrow> (Inl e, s3)
         | (Inr t, s3) \<Rightarrow>
             (case inferStmts catchBlock catchEnv (Prim Tvoid)
                     (setType catchEnv catchVar (Prim Tany) s3) of
                (Inl e, s4) \<Rightarrow> (Inl e, s4)
              | (Inr t', s4) \<Rightarrow> (Inr (Prim Tvoid), s4)))"
| "inferStmts [] env t s = (Inr t, s)"
| "inferStmts (stmt # rest) env t s =
     (case inferType stmt env s of
        (Inl e, s1) \<Rightarrow> (Inl e, s1)
      | (Inr t1, s1) \<Rightarrow> inferStmts rest env t1 s1)"
| "inferArgs [] i pts env s = (Inr (), s)"
| "inferArgs (arg # rest) i pts env s =
     (case inferType arg env s of
        (Inl e, s1) \<Rightarrow> (Inl e, s1)
      | (Inr at, s1) \<Rightarrow>
          if \<not> compareTypes at (pts ! i) then (Inl (ArgTypeMismatch i (pts ! i) at), s1)
          else inferArgs rest (Suc i) pts env s1)"

definition empty_tstate :: tstate where
  "empty_tstate = \<lparr>types = (\<lambda>a. Map.empty), nextEnv = 0\<rparr>"

section \<open>Predicates used in the statements\<close>

text \<open>
  \<open>store_rel c s s'\<close>: from store \<open>s\<close> to store \<open>s'\<close> no context and no cache was
  lost; of the frames that existed in \<open>s\<close> only the one at address \<open>c\<close> may differ; and
  every entry of a cache that existed in \<open>s\<close> is still there.
  \<open>exec_ok exec\<close>: every run of \<open>exec\<close> on a context changes the store in this way, with
  the address of that context for \<open>c\<close>.
\<close>

definition store_rel :: "nat \<Rightarrow> state \<Rightarrow> state \<Rightarrow> bool" where
  "store_rel c s s' =
     (nextContext s \<le> nextContext s' \<and>
      (\<forall>a \<in> {..<nextContext s} - {c}. frames s' a = frames s a) \<and>
      nextCache s \<le> nextCache s' \<and>
      (\<forall>m \<in> {..<nextCache s}. caches s m \<subseteq>\<^sub>m caches s' m))"

definition exec_ok :: "exec \<Rightarrow> bool" where
  "exec_ok exec =
     (\<forall>nd c s r s'. exec nd c s = Some (r, s') \<longrightarrow> store_rel (address c) s s')"

text \<open>
  \<open>exec_le exec exec'\<close>: whatever \<open>exec\<close> yields, \<open>exec'\<close> yields as well (it may
  yield a result where \<open>exec\<close> reaches its bound).
\<close>

definition exec_le :: "exec \<Rightarrow> exec \<Rightarrow> bool" where
  "exec_le exec exec' = (\<forall>nd c s r. exec nd c s = Some r \<longrightarrow> exec' nd c s = Some r)"

text \<open>
  \<open>assigned nd\<close>: the names that a run of the node can assign in the record of the very
  context it runs on, through a declaration or an assignment executed on that context.
  The condition of an If, the three expressions of a For and the condition of a DoWhile
  are; so is the body of a While (line 1074). The statements of a block, of a branch, of
  the other loop bodies, of a try or catch block and of a function body run on a context
  created for them. \<open>exec_keeps exec\<close>: a run of \<open>exec\<close> on an existing context leaves
  the own binding of every other name in that record as it was.
\<close>

fun assigned :: "node \<Rightarrow> string set" where
  "assigned (VariableDeclarationNode varType nm e) = insert nm (assigned e)"
| "assigned (AssignmentNode nm e) = insert nm (assigned e)"
| "assigned (ReturnNode e) = assigned e"
| "assigned (ErrorNode e) = assigned e"
| "assigned (FunctionCallNode f args) = (\<Union>a \<in> set args. assigned a)"
| "assigned (IfNode cond thenBranch elseBranch) = assigned cond"
| "assigned (WhileNode cond body) = assigned cond \<union> (\<Union>st \<in> set body. assigned st)"
| "assigned (ForNode init cond update body) = assigned init \<union> assigned cond \<union> assigned update"
| "assigned (DoWhileNode body cond) = assigned cond"
| "assigned nd = {}"

definition exec_keeps :: "exec \<Rightarrow> bool" where
  "exec_keeps exec =
     (\<forall>nd c s r s' nm. exec nd c s = Some (r, s') \<and> address c < nextContext s \<and> nm \<notin> assigned nd
        \<longrightarrow> variables (frames s' (address c)) nm = variables (frames s (address c)) nm)"

text \<open>
  A context of the store: its frame has been allocated, and every parent was constructed
  before its child (\<^verbatim>\<open>createChildContext\<close> is the only way to obtain a child).
\<close>

fun wf_context :: "ExecutionContext \<Rightarrow> state \<Rightarrow> bool" where
  "wf_context (Context a p) s =
     (a < nextContext s \<and>
      (case p of None \<Rightarrow> True | Some q \<Rightarrow> address q < a \<and> wf_context q s))"



section \<open>Example inputs\<close>

text \<open>The root context of a fresh interpreter run and the store around it.\<close>

definition host0 :: "nat \<Rightarrow> scalar" where
  "host0 k = PUndefined"

definition root :: ExecutionContext where
  "root = fst (new_ExecutionContext None (empty_state host0))"

definition root_state :: state where
  "root_state = snd (new_ExecutionContext None (empty_state host0))"

text \<open>Two object types with the same properties in different key order.\<close>

definition ex_type_a :: Type where
  "ex_type_a =
     T_object [(''id'', Prim Tnumber),
               (''f'', T_function [Prim Tany] (T_array (Prim Tstring)))]"

definition ex_type_b :: Type where
  "ex_type_b =
     T_object [(''f'', T_function [Prim Tany] (T_array (Prim Tstring))),
               (''id'', Prim Tnumber)]"

text \<open>
  A loop whose body declares \<^verbatim>\<open>x\<close> and then clears the loop variable, run on a root
  frame where \<^verbatim>\<open>go\<close> is true.
\<close>

definition ex_while :: node where
  "ex_while =
     WhileNode (VariableReferenceNode ''go'')
       [VariableDeclarationNode ''string'' ''x'' (LiteralNode (PString ''inner'')),
        AssignmentNode ''go'' (LiteralNode (PBoolean False))]"

definition ex_while_state :: state where
  "ex_while_state = setVariable root ''go'' (VScalar (PBoolean True)) root_state"















text \<open>A root frame that binds \<^verbatim>\<open>x\<close> to 1, a child scope, and an assignment to \<^verbatim>\<open>x\<close>.\<close>

definition ex_scope_state :: state where
  "ex_scope_state =
     snd (createChildContext root (setVariable root ''x'' (VScalar (PNumber 1)) root_state))"

definition ex_child :: ExecutionContext where
  "ex_child = Context 1 (Some root)"

definition ex_assign :: node where
  "ex_assign = AssignmentNode ''x'' (LiteralNode (PNumber 2))"

text \<open>
  A root frame that binds \<^verbatim>\<open>x\<close> to 1 and \<^verbatim>\<open>go\<close> to true, and a body that assigns 2 to
  \<^verbatim>\<open>x\<close> and clears \<^verbatim>\<open>go\<close>.
\<close>

definition ex_enclosing_state :: state where
  "ex_enclosing_state =
     setVariable root ''go'' (VScalar (PBoolean True))
       (setVariable root ''x'' (VScalar (PNumber 1)) root_state)"

definition ex_assign_body :: "node list" where
  "ex_assign_body = [ex_assign, AssignmentNode ''go'' (LiteralNode (PBoolean False))]"

text \<open>A loop body that prints, breaks, and would print again; an error value.\<close>

definition ex_true :: node where
  "ex_true = LiteralNode (PBoolean True)"

definition ex_loop_body :: "node list" where
  "ex_loop_body =
     [FunctionCallNode ''print'' [LiteralNode (PString ''a'')],
      BreakNode,
      FunctionCallNode ''print'' [LiteralNode (PString ''b'')]]"

definition ex_loop_end :: state where
  "ex_loop_end =
     snd (the (execStmts (execute 3) ex_loop_body root (VScalar PUndefined)
                 (snd (createChildContext root root_state))))"

definition ex_boom :: error where
  "ex_boom = UserError (VScalar (PString ''boom''))"

text \<open>A root frame whose binding of \<^verbatim>\<open>print\<close> has been overwritten by a number.\<close>

definition ex_shadow_state :: state where
  "ex_shadow_state = setVariable root ''print'' (VScalar (PNumber 5)) root_state"

section \<open>Lemmas\<close>

subsection \<open>Structural type equality\<close>

lemma compareParams_all2:
  "length ps = length qs \<Longrightarrow> compareParams ps qs = list_all2 compareTypes ps qs"
  by (induction ps qs rule: list_induct2) auto

lemma compareProps_iff:
  "compareProps ps qs = (\<forall>(k, t) \<in> set ps. \<exists>u. map_of qs k = Some u \<and> compareTypes t u)"
  by (induction ps) (auto split: option.splits if_splits)

lemma compareTypes_refl: "wf_Type a \<Longrightarrow> compareTypes a a"
proof (induction a)
  case (Prim t) show ?case by simp
next
  case (T_function ps r)
  have "list_all2 compareTypes ps ps"
    using T_function by (auto simp: list_all2_same list_all_iff)
  with T_function show ?case by (simp add: compareParams_all2)
next
  case (T_array e) then show ?case by simp
next
  case (T_object ps)
  have "\<exists>u. map_of ps k = Some u \<and> compareTypes t u" if "(k, t) \<in> set ps" for k t
  proof -
    from T_object.prems that have "map_of ps k = Some t" by simp
    moreover have "compareTypes t t"
      using T_object.IH[of "(k, t)" t] T_object.prems that by (auto simp: list_all_iff)
    ultimately show ?thesis by blast
  qed
  then show ?case by (auto simp: compareProps_iff)
qed

lemma keys_eq:
  assumes "distinct (map fst ps)" "distinct (map fst qs)" "length ps = length qs"
    and "fst ` set ps \<subseteq> fst ` set qs"
  shows "fst ` set ps = fst ` set qs"
proof -
  have "card (fst ` set ps) = length ps" using assms(1) by (metis distinct_card length_map set_map)
  moreover have "card (fst ` set qs) = length qs" using assms(2) by (metis distinct_card length_map set_map)
  ultimately show ?thesis using assms(3,4) by (simp add: card_subset_eq)
qed

lemma compareTypes_sym_imp:
  "wf_Type a \<Longrightarrow> wf_Type b \<Longrightarrow> compareTypes a b \<Longrightarrow> compareTypes b a"
proof (induction a arbitrary: b)
  case (Prim t) then show ?case by (cases b) auto
next
  case (T_function ps r)
  from T_function.prems(3) obtain qs s where b: "b = T_function qs s" by (cases b) auto
  from T_function.prems b have len: "length ps = length qs"
    and ab: "list_all2 compareTypes ps qs" and rs: "compareTypes r s"
    by (auto simp: compareParams_all2 split: if_splits)
  have "list_all2 compareTypes qs ps"
    unfolding list_all2_conv_all_nth
  proof (intro conjI allI impI)
    show "length qs = length ps" using len by simp
    fix i assume i: "i < length qs"
    have "compareTypes (ps ! i) (qs ! i)" using ab i len by (simp add: list_all2_conv_all_nth)
    moreover have "ps ! i \<in> set ps" "wf_Type (ps ! i)" "wf_Type (qs ! i)"
      using i len T_function.prems b by (auto simp: list_all_length)
    ultimately show "compareTypes (qs ! i) (ps ! i)" using T_function.IH(1) by blast
  qed
  moreover have "compareTypes s r" using T_function.IH(2) T_function.prems b rs by simp
  ultimately show ?case using b len by (simp add: compareParams_all2)
next
  case (T_array e) then show ?case by (cases b) auto
next
  case (T_object ps)
  from T_object.prems(3) obtain qs where b: "b = T_object qs" by (cases b) auto
  from T_object.prems b have len: "length ps = length qs"
    and ab: "\<forall>(k, t) \<in> set ps. \<exists>u. map_of qs k = Some u \<and> compareTypes t u"
    and dp: "distinct (map fst ps)" and dq: "distinct (map fst qs)"
    by (auto simp: compareProps_iff split: if_splits)
  have sub: "fst ` set ps \<subseteq> fst ` set qs"
    using ab by (force dest: map_of_SomeD)
  have keys: "fst ` set ps = fst ` set qs" by (rule keys_eq[OF dp dq len sub])
  have "\<exists>t. map_of ps k = Some t \<and> compareTypes u t" if ku: "(k, u) \<in> set qs" for k u
  proof -
    from ku keys have "k \<in> fst ` set ps" by force
    then obtain t where kt: "(k, t) \<in> set ps" by auto
    with dp have mp: "map_of ps k = Some t" by simp
    from ab kt obtain u' where "map_of qs k = Some u'" "compareTypes t u'" by blast
    moreover from dq ku have "map_of qs k = Some u" by simp
    ultimately have tu: "compareTypes t u" by simp
    have "wf_Type t" "wf_Type u" using kt ku T_object.prems b by (auto simp: list_all_iff)
    with T_object.IH[of "(k, t)" t u] kt tu have "compareTypes u t" by auto
    with mp show ?thesis by blast
  qed
  then show ?case using b len by (auto simp: compareProps_iff)
qed

subsection \<open>Frames touched by a run\<close>

text \<open>
  Every write of the execution pass goes through \<^verbatim>\<open>setVariable\<close> or one of the two
  flags, on the context at hand; every other context a run works on is one it has just
  created. So a run on a context leaves all other existing frames as they were.
\<close>

lemma store_rel_refl [simp]: "store_rel c s s"
  by (simp add: store_rel_def)

lemma store_rel_trans: "store_rel c s s1 \<Longrightarrow> store_rel c s1 s2 \<Longrightarrow> store_rel c s s2"
  unfolding store_rel_def
  by (intro conjI ballI) (auto intro: map_le_trans)

lemma store_rel_fresh:
  "store_rel x s s1 \<Longrightarrow> store_rel d s1 s2 \<Longrightarrow> nextContext s \<le> d \<Longrightarrow> store_rel x s s2"
  unfolding store_rel_def
  by (intro conjI ballI) (auto intro: map_le_trans)

lemma setVariable_simps [simp]:
  "nextContext (setVariable c nm v s) = nextContext s"
  "caches (setVariable c nm v s) = caches s"
  "nextCache (setVariable c nm v s) = nextCache s"
  "console (setVariable c nm v s) = console s"
  "a \<noteq> address c \<Longrightarrow> frames (setVariable c nm v s) a = frames s a"
  "hostCalls (setVariable c nm v s) = hostCalls s"
  "host (setVariable c nm v s) = host s"
  by (simp_all add: setVariable_def Let_def)

lemma setVariable_variables:
  "nm \<noteq> ''__proto__'' \<Longrightarrow>
     variables (frames (setVariable c nm v s) (address c)) = (variables (frames s (address c)))(nm \<mapsto> v)"
  "nm \<noteq> ''__proto__'' \<Longrightarrow>
     prototype (frames (setVariable c nm v s) (address c)) = prototype (frames s (address c))"
  "x \<noteq> nm \<Longrightarrow>
     variables (frames (setVariable c nm v s) (address c)) x = variables (frames s (address c)) x"
  "breakSignal (frames (setVariable c nm v s) (address c)) = breakSignal (frames s (address c))"
  "continueSignal (frames (setVariable c nm v s) (address c)) = continueSignal (frames s (address c))"
  by (simp_all add: setVariable_def Let_def)

lemma setVariable_proto:
  assumes "variables (frames s (address c)) ''__proto__'' = None"
    and "prototype (frames s (address c)) \<noteq> VScalar PNull"
  shows "variables (frames (setVariable c ''__proto__'' v s) (address c)) = variables (frames s (address c))"
    and "prototype (frames (setVariable c ''__proto__'' v s) (address c))
          = (if isObject v \<or> v = VScalar PNull then v else prototype (frames s (address c)))"
  using assms by (simp_all add: setVariable_def Let_def)

lemma writeVariable_Some:
  "writeVariable c nm v s = Some s1 \<Longrightarrow> s1 = setVariable c nm v s"
  by (auto simp: writeVariable_def split: if_splits)

lemma setVariable_store_rel [simp]: "store_rel (address c) s (setVariable c nm v s)"
  by (simp add: store_rel_def)

lemma fold_setVariable_simps:
  "nextContext (fold (\<lambda>x. setVariable c (f x) (g x)) xs s) = nextContext s"
  "a \<noteq> address c \<Longrightarrow> frames (fold (\<lambda>x. setVariable c (f x) (g x)) xs s) a = frames s a"
  "caches (fold (\<lambda>x. setVariable c (f x) (g x)) xs s) = caches s"
  "nextCache (fold (\<lambda>x. setVariable c (f x) (g x)) xs s) = nextCache s"
  by (induction xs arbitrary: s) simp_all

lemma injectBuiltIns_simps [simp]:
  "nextContext (injectBuiltIns c s) = nextContext s"
  "a \<noteq> address c \<Longrightarrow> frames (injectBuiltIns c s) a = frames s a"
  "caches (injectBuiltIns c s) = caches s"
  "nextCache (injectBuiltIns c s) = nextCache s"
  by (simp_all add: injectBuiltIns_def fold_setVariable_simps)

lemma bindFrom_simps:
  assumes "bindFrom i c ps args s = Some s1"
  shows "nextContext s1 = nextContext s" "a \<noteq> address c \<Longrightarrow> frames s1 a = frames s a"
    "caches s1 = caches s" "nextCache s1 = nextCache s" "console s1 = console s"
  using assms
  by (induction ps arbitrary: i s)
    (auto split: option.splits dest!: writeVariable_Some)

lemma bindParams_simps:
  assumes "bindParams c ps args s = Some s1"
  shows "nextContext s1 = nextContext s" "a \<noteq> address c \<Longrightarrow> frames s1 a = frames s a"
    "caches s1 = caches s" "nextCache s1 = nextCache s" "console s1 = console s"
  using assms bindFrom_simps[of 0 c ps args s s1] by (simp_all add: bindParams_def)

lemma bindParams_store_rel: "bindParams c ps args s = Some s1 \<Longrightarrow> store_rel (address c) s s1"
  using bindParams_simps[of c ps args s s1] by (simp add: store_rel_def)

lemma new_ExecutionContext_props:
  assumes "new_ExecutionContext p s = (c, s1)"
  shows "c = Context (nextContext s) p" "nextContext s1 = Suc (nextContext s)"
    "\<And>a. a \<noteq> nextContext s \<Longrightarrow> frames s1 a = frames s a"
    "caches s1 = caches s" "nextCache s1 = nextCache s"
  using assms by (auto simp: new_ExecutionContext_def Let_def)

lemma createChildContext_props:
  assumes "createChildContext p s = (c, s1)"
  shows "c = Context (nextContext s) (Some p)" "nextContext s1 = Suc (nextContext s)"
    "\<And>a. a \<noteq> nextContext s \<Longrightarrow> frames s1 a = frames s a"
    "caches s1 = caches s" "nextCache s1 = nextCache s"
  using assms new_ExecutionContext_props[of "Some p" s c s1] by (auto simp: createChildContext_def)

lemma createChildContext_store_rel:
  "createChildContext p s = (c, s1) \<Longrightarrow> store_rel x s s1"
  using createChildContext_props(2-5)[of p s c s1] by (simp add: store_rel_def)

lemma child_store_rel:
  assumes "createChildContext p s = (c, s1)" "store_rel (address c) s1 s2"
  shows "store_rel x s s2"
proof (rule store_rel_fresh[OF createChildContext_store_rel[OF assms(1)] assms(2)])
  show "nextContext s \<le> address c" using createChildContext_props(1)[OF assms(1)] by simp
qed

lemma execStmts_frame:
  "exec_ok exec \<Longrightarrow> execStmts exec stmts c res s = Some (x, s') \<Longrightarrow> store_rel (address c) s s'"
proof (induction stmts arbitrary: res s)
  case Nil then show ?case by simp
next
  case (Cons st rest)
  show ?case
  proof (cases "exec st c s")
    case None with Cons.prems show ?thesis by simp
  next
    case (Some y)
    obtain r s1 where y: "y = (r, s1)" by (cases y)
    have 1: "store_rel (address c) s s1" using Cons.prems(1) Some y by (auto simp: exec_ok_def)
    show ?thesis
    proof (cases r)
      case (Inl sg) with Cons.prems Some y 1 show ?thesis by auto
    next
      case (Inr v)
      with Cons.prems Some y have "execStmts exec rest c v s1 = Some (x, s')" by simp
      from Cons.IH[OF Cons.prems(1) this] 1 show ?thesis by (rule store_rel_trans[rotated])
    qed
  qed
qed

lemma exec_okD: "exec_ok exec \<Longrightarrow> exec nd c s = Some (r, s') \<Longrightarrow> store_rel (address c) s s'"
  by (auto simp: exec_ok_def)

lemma toFunction_frames [simp]:
  "FunctionLiteral_toFunction ps body pure c s = (v, s1) \<Longrightarrow> store_rel x s s1"
  by (auto simp: FunctionLiteral_toFunction_def store_rel_def split: if_splits)

lemma evalArgs_frame:
  "exec_ok exec \<Longrightarrow> evalArgs exec args c s = Some (x, s') \<Longrightarrow> store_rel (address c) s s'"
proof (induction args arbitrary: x s)
  case Nil then show ?case by simp
next
  case (Cons arg rest)
  let ?first = "(case arg of
              FunctionLiteralNode fname params body dpt drt pure \<Rightarrow>
                (let (v, s1) = FunctionLiteral_toFunction params body pure c s
                 in Some (Inr v, s1))
            | _ \<Rightarrow> exec arg c s)"
  have first: "store_rel (address c) s s1" if "?first = Some (r, s1)" for r s1
    using that Cons.prems(1)
    by (cases arg) (auto dest: exec_okD split: prod.splits)
  from Cons.prems(2) obtain r s1 where f: "?first = Some (r, s1)"
    by (cases ?first) (auto simp del: node.case)
  show ?case
  proof (cases r)
    case (Inl sg)
    with Cons.prems(2) f have "s' = s1" by (simp del: node.case)
    with first[OF f] show ?thesis by simp
  next
    case (Inr v)
    with Cons.prems(2) f obtain y where y: "evalArgs exec rest c s1 = Some (y, s')"
      by (auto simp del: node.case split: option.splits sum.splits)
    from store_rel_trans[OF first[OF f] Cons.IH[OF Cons.prems(1) y]] show ?thesis .
  qed
qed

lemma fn_frame:
  assumes "exec_ok exec" "fn exec ps body outer args s = Some (r, s')"
  shows "store_rel x s s'"
proof -
  obtain l s1 where l: "createChildContext outer s = (l, s1)" by (cases "createChildContext outer s")
  show ?thesis
  proof (cases "length args \<noteq> length ps")
    case True
    with assms(2) l have "s' = s1" by (simp add: fn_def)
    with createChildContext_store_rel[OF l] show ?thesis by simp
  next
    case False
    with assms(2) l obtain y s2 where b: "bindParams l ps args s1 = Some s2"
      and y: "execStmts exec body l (VScalar PUndefined) s2 = Some (y, s')"
      by (auto simp: fn_def split: option.splits signal.splits)
    have "store_rel (address l) s1 s'"
      by (rule store_rel_trans[OF bindParams_store_rel[OF b] execStmts_frame[OF assms(1) y]])
    then show ?thesis by (rule child_store_rel[OF l])
  qed
qed

lemma callBuiltIn_frames [simp]: "callBuiltIn b args s = (r, s') \<Longrightarrow> store_rel x s s'"
  by (cases b) (auto simp: store_rel_def hostResult_def split: val.splits scalar.splits)

lemma call_frame:
  assumes "exec_ok exec" "call exec f args s = Some (r, s')"
  shows "store_rel x s s'"
proof (cases f)
  case (BuiltIn b owner)
  with assms(2) show ?thesis by auto
next
  case (FunctionClosure ps body outer memo)
  show ?thesis
  proof (cases memo)
    case None
    with assms FunctionClosure show ?thesis by (auto dest: fn_frame)
  next
    case (Some cache)
    note memo = this
    show ?thesis
    proof (cases "JSON_stringify args")
      case (Inl e)
      with assms(2) FunctionClosure memo show ?thesis by simp
    next
      case (Inr key)
    show ?thesis
    proof (cases "caches s cache key")
      case (Some cached)
      with assms(2) FunctionClosure memo Inr show ?thesis by simp
    next
      case None
      with assms(2) FunctionClosure memo Inr obtain r1 s1 where
        f: "fn exec ps body outer args s = Some (r1, s1)"
        and s': "nextContext s' = nextContext s1" "frames s' = frames s1"
          "nextCache s' = nextCache s1"
          "caches s' = caches s1 \<or> (\<exists>v. caches s' =
              (caches s1)(cache := (caches s1 cache)(key \<mapsto> v)))"
        by (auto split: option.splits sum.splits) blast+
      from fn_frame[OF assms(1) f] have r: "store_rel x s s1" .
      have "caches s m \<subseteq>\<^sub>m caches s' m" if m: "m < nextCache s" for m
      proof -
        from r m have le: "caches s m \<subseteq>\<^sub>m caches s1 m" by (simp add: store_rel_def)
        from s'(4) show ?thesis
        proof
          assume "caches s' = caches s1" with le show ?thesis by simp
        next
          assume "\<exists>v. caches s' =
              (caches s1)(cache := (caches s1 cache)(key \<mapsto> v))"
          then obtain v where c: "caches s' =
              (caches s1)(cache := (caches s1 cache)(key \<mapsto> v))" ..
          show ?thesis
          proof (cases "m = cache")
            case False with le c show ?thesis by simp
          next
            case True
            with None have "key \<notin> dom (caches s m)" by (simp add: domIff)
            with le True c show ?thesis by (auto simp: map_le_def)
          qed
        qed
      qed
      with r s'(1-3) show ?thesis by (simp add: store_rel_def)
    qed
    qed
  qed
next
  case (ArrowClosure ps body outer)
  obtain l s1 where l: "createChildContext outer s = (l, s1)" by (cases "createChildContext outer s")
  with assms(2) ArrowClosure obtain s2 where b: "bindParams l ps args s1 = Some s2"
    and e: "exec body l s2 = Some (r, s')"
    by (auto split: option.splits)
  from exec_okD[OF assms(1) e] have "store_rel (address l) s1 s'"
    by (rule store_rel_trans[OF bindParams_store_rel[OF b]])
  then show ?thesis by (rule child_store_rel[OF l])
next
  case (HostFunction nm)
  with assms(2) show ?thesis by simp
qed

lemma whileLoop_frame:
  "exec_ok exec \<Longrightarrow> whileLoop k exec cond body c res s = Some (r, s')
    \<Longrightarrow> store_rel (address c) s s'"
proof (induction k arbitrary: res s)
  case 0 then show ?case by simp
next
  case (Suc k)
  from Suc.prems(2) obtain rc s1 where c1: "exec cond c s = Some (rc, s1)"
    by (cases "exec cond c s") auto
  have f1: "store_rel (address c) s s1" by (rule exec_okD[OF Suc.prems(1) c1])
  obtain l s2 where l: "createChildContext c s1 = (l, s2)" by (cases "createChildContext c s1")
  have f2: "store_rel (address c) s1 s2" by (rule createChildContext_store_rel[OF l])
  show ?case
  proof (cases "\<exists>v. rc = Inr v \<and> asBoolean v = Some True")
    case False
    with Suc.prems(2) c1 have "s' = s1"
      by (auto split: sum.splits option.splits if_splits)
    with f1 show ?thesis by simp
  next
    case True
    with Suc.prems(2) c1 l obtain y s3 where
      b: "execStmts exec body c res s2 = Some (y, s3)"
      and rest: "s' = s3 \<or> (\<exists>r'. whileLoop k exec cond body c r' s3 = Some (r, s'))"
      by (auto split: option.splits signal.splits if_splits) blast+
    have f3: "store_rel (address c) s2 s3" by (rule execStmts_frame[OF Suc.prems(1) b])
    have f03: "store_rel (address c) s s3"
      by (rule store_rel_trans[OF store_rel_trans[OF f1 f2] f3])
    from rest show ?thesis
    proof
      assume "s' = s3" with f03 show ?thesis by simp
    next
      assume "\<exists>r'. whileLoop k exec cond body c r' s3 = Some (r, s')"
      then obtain r' where "whileLoop k exec cond body c r' s3 = Some (r, s')" ..
      from store_rel_trans[OF f03 Suc.IH[OF Suc.prems(1) this]] show ?thesis .
    qed
  qed
qed

lemma forTry_frame:
  assumes "exec_ok exec" "forTry exec body update l c res s = Some (y, s')"
    and "store_rel (address c) s0 s" "nextContext s0 \<le> address l"
  shows "store_rel (address c) s0 s'"
proof -
  from assms(2) obtain y1 s1 where b: "execStmts exec body l res s = Some (y1, s1)"
    and rest: "s' = s1 \<or> (\<exists>ru. exec update c s1 = Some (ru, s'))"
    by (auto simp: forTry_def split: option.splits sum.splits)
  have f1: "store_rel (address c) s0 s1"
    by (rule store_rel_fresh[OF assms(3) execStmts_frame[OF assms(1) b] assms(4)])
  from rest show ?thesis
  proof
    assume "s' = s1" with f1 show ?thesis by simp
  next
    assume "\<exists>ru. exec update c s1 = Some (ru, s')"
    then obtain ru where "exec update c s1 = Some (ru, s')" ..
    from store_rel_trans[OF f1 exec_okD[OF assms(1) this]] show ?thesis .
  qed
qed

lemma forLoop_frame:
  "exec_ok exec \<Longrightarrow> forLoop k exec cond update body c res s = Some (r, s')
    \<Longrightarrow> store_rel (address c) s s'"
proof (induction k arbitrary: res s)
  case 0 then show ?case by simp
next
  case (Suc k)
  from Suc.prems(2) obtain rc s1 where c1: "exec cond c s = Some (rc, s1)"
    by (cases "exec cond c s") auto
  have f1: "store_rel (address c) s s1" by (rule exec_okD[OF Suc.prems(1) c1])
  obtain l s2 where l: "createChildContext c s1 = (l, s2)" by (cases "createChildContext c s1")
  have f2: "store_rel (address c) s1 s2" by (rule createChildContext_store_rel[OF l])
  have fresh: "nextContext s1 \<le> address l" using createChildContext_props(1)[OF l] by simp
  show ?case
  proof (cases "\<exists>v. rc = Inr v \<and> asBoolean v = Some True")
    case False
    with Suc.prems(2) c1 have "s' = s1"
      by (auto split: sum.splits option.splits if_splits)
    with f1 show ?thesis by simp
  next
    case True
    with Suc.prems(2) c1 l obtain y s4 where
      b: "forTry exec body update l c res s2 = Some (y, s4)"
      and rest: "s' = s4 \<or> (\<exists>r'. forLoop k exec cond update body c r' s4 = Some (r, s'))
         \<or> (\<exists>ru s5. exec update c s4 = Some (ru, s5) \<and>
               (s' = s5 \<or> (\<exists>r'. forLoop k exec cond update body c r' s5 = Some (r, s'))))"
      by (auto split: option.splits signal.splits sum.splits if_splits) blast+
    have f4: "store_rel (address c) s1 s4" by (rule forTry_frame[OF Suc.prems(1) b f2 fresh])
    have f04: "store_rel (address c) s s4" by (rule store_rel_trans[OF f1 f4])
    from rest show ?thesis
    proof (elim disjE exE conjE)
      assume "s' = s4" with f04 show ?thesis by simp
    next
      fix r' assume "forLoop k exec cond update body c r' s4 = Some (r, s')"
      from store_rel_trans[OF f04 Suc.IH[OF Suc.prems(1) this]] show ?thesis .
    next
      fix ru s5 assume u: "exec update c s4 = Some (ru, s5)" and "s' = s5"
      with store_rel_trans[OF f04 exec_okD[OF Suc.prems(1) u]] show ?thesis by simp
    next
      fix ru s5 r' assume u: "exec update c s4 = Some (ru, s5)"
        and "forLoop k exec cond update body c r' s5 = Some (r, s')"
      from store_rel_trans[OF store_rel_trans[OF f04 exec_okD[OF Suc.prems(1) u]]
          Suc.IH[OF Suc.prems(1) this(2)]] show ?thesis .
    qed
  qed
qed

lemma doWhileLoop_frame:
  "exec_ok exec \<Longrightarrow> doWhileLoop k exec body cond c res s = Some (r, s')
    \<Longrightarrow> store_rel (address c) s s'"
proof (induction k arbitrary: res s)
  case 0 then show ?case by simp
next
  case (Suc k)
  obtain l s1 where l: "createChildContext c s = (l, s1)" by (cases "createChildContext c s")
  with Suc.prems(2) obtain y s2 where
    b: "execStmts exec body l res s1 = Some (y, s2)"
    and rest: "s' = s2 \<or> (\<exists>rc s3. exec cond c s2 = Some (rc, s3) \<and>
               (s' = s3 \<or> (\<exists>r'. doWhileLoop k exec body cond c r' s3 = Some (r, s'))))"
    by (auto split: option.splits signal.splits sum.splits if_splits) blast+
  have f2: "store_rel (address c) s s2"
    by (rule child_store_rel[OF l execStmts_frame[OF Suc.prems(1) b]])
  from rest show ?case
  proof (elim disjE exE conjE)
    assume "s' = s2" with f2 show ?thesis by simp
  next
    fix rc s3 assume u: "exec cond c s2 = Some (rc, s3)" and "s' = s3"
    with store_rel_trans[OF f2 exec_okD[OF Suc.prems(1) u]] show ?thesis by simp
  next
    fix rc s3 r' assume u: "exec cond c s2 = Some (rc, s3)"
      and "doWhileLoop k exec body cond c r' s3 = Some (r, s')"
    from store_rel_trans[OF store_rel_trans[OF f2 exec_okD[OF Suc.prems(1) u]]
        Suc.IH[OF Suc.prems(1) this(2)]] show ?thesis .
  qed
qed

lemma setSignal_store_rel [simp]:
  "store_rel (address c) s (setBreakSignal c s)"
  "store_rel (address c) s (setContinueSignal c s)"
  by (simp_all add: store_rel_def setBreakSignal_def setContinueSignal_def)

lemma store_rel_setVariable_after:
  "store_rel (address c) s s1 \<Longrightarrow> store_rel (address c) s (setVariable c nm v s1)"
  by (rule store_rel_trans[OF _ setVariable_store_rel])

lemma execNode_frame:
  assumes ok: "exec_ok exec" and run: "execNode exec k nd c s = Some (r, s')"
  shows "store_rel (address c) s s'"
proof (cases nd)
  case (VariableDeclarationNode varType nm e)
  show ?thesis
  proof (cases "varType = ''function''")
    case True
    with run VariableDeclarationNode show ?thesis
      by (cases e)
        (auto simp: ArrowFunction_toFunction_def split: prod.splits option.splits
          dest!: writeVariable_Some intro!: store_rel_setVariable_after)
  next
    case False
    with run VariableDeclarationNode obtain r1 s1 where
      e: "exec e c s = Some (r1, s1)" and s': "s' = s1 \<or> (\<exists>v. s' = setVariable c nm v s1)"
      by (auto split: option.splits sum.splits if_splits dest!: writeVariable_Some) blast+
    from exec_okD[OF ok e] s' show ?thesis by (auto intro: store_rel_setVariable_after)
  qed
next
  case (AssignmentNode nm e)
  with run obtain r1 s1 where
    e: "exec e c s = Some (r1, s1)" and s': "s' = s1 \<or> (\<exists>v. s' = setVariable c nm v s1)"
    by (auto split: option.splits sum.splits dest!: writeVariable_Some) blast+
  from exec_okD[OF ok e] s' show ?thesis by (auto intro: store_rel_setVariable_after)
next
  case (ReturnNode e)
  with run show ?thesis by (auto split: option.splits sum.splits dest: exec_okD[OF ok])
next
  case BreakNode with run show ?thesis by simp
next
  case ContinueNode with run show ?thesis by simp
next
  case (ErrorNode e)
  with run show ?thesis by (auto split: option.splits sum.splits dest: exec_okD[OF ok])
next
  case (FunctionLiteralNode fname ps body dpt drt pure) with run show ?thesis by simp
next
  case (ArrowFunctionNode ps body) with run show ?thesis by simp
next
  case (FunctionCallNode fname args)
  show ?thesis
  proof (cases "\<exists>f. getVariable c fname s = Inr (VFunction f)")
    case False
    with run FunctionCallNode have "s' = s" by (auto split: sum.splits val.splits if_splits)
    then show ?thesis by simp
  next
    case True
    then obtain f where f: "getVariable c fname s = Inr (VFunction f)" ..
    with run FunctionCallNode obtain ra s1 where
      a: "evalArgs exec args c s = Some (ra, s1)"
      and rest: "s' = s1 \<or> (\<exists>vs. call exec f vs s1 = Some (r, s'))"
      by (auto split: option.splits sum.splits if_splits) blast+
    from rest evalArgs_frame[OF ok a] show ?thesis
      by (auto intro: store_rel_trans dest: call_frame[OF ok])
  qed
next
  case (LiteralNode v) with run show ?thesis by simp
next
  case (VariableReferenceNode nm)
  with run show ?thesis by (auto split: sum.splits if_splits)
next
  case (BlockNode stmts)
  obtain l s1 where l: "createChildContext c s = (l, s1)" by (cases "createChildContext c s")
  with run BlockNode obtain y where "execStmts exec stmts l (VScalar PUndefined) s1 = Some (y, s')"
    by (auto split: option.splits)
  from child_store_rel[OF l execStmts_frame[OF ok this]] show ?thesis .
next
  case (IfNode cond thenB elseB)
  from run IfNode obtain rc s1 where c1: "exec cond c s = Some (rc, s1)"
    by (cases "exec cond c s") auto
  obtain l s2 where l: "createChildContext c s1 = (l, s2)" by (cases "createChildContext c s1")
  from run IfNode c1 l have "s' = s1 \<or> (\<exists>br y. execStmts exec br l (VScalar PUndefined) s2 = Some (y, s'))"
    by (auto simp: Let_def split: option.splits sum.splits)
  then show ?thesis
  proof (elim disjE exE)
    assume "s' = s1" with exec_okD[OF ok c1] show ?thesis by simp
  next
    fix br y assume "execStmts exec br l (VScalar PUndefined) s2 = Some (y, s')"
    from store_rel_trans[OF exec_okD[OF ok c1] child_store_rel[OF l execStmts_frame[OF ok this]]]
    show ?thesis .
  qed
next
  case (SignalNode sg)
  with run show ?thesis by (cases sg) auto
next
  case (WhileNode cond body)
  with run show ?thesis by (auto dest: whileLoop_frame[OF ok])
next
  case (ForNode init cond update body)
  with run obtain ri s1 where i: "exec init c s = Some (ri, s1)"
    and rest: "s' = s1 \<or> forLoop k exec cond update body c (VScalar PUndefined) s1 = Some (r, s')"
    by (auto split: option.splits sum.splits)
  from rest exec_okD[OF ok i] show ?thesis
    by (auto intro: store_rel_trans dest: forLoop_frame[OF ok])
next
  case (DoWhileNode body cond)
  with run show ?thesis by (auto dest: doWhileLoop_frame[OF ok])
next
  case (TryCatchNode tryB cv catchB)
  obtain t s1 where t: "createChildContext c s = (t, s1)" by (cases "createChildContext c s")
  with run TryCatchNode obtain y s2 where
    b: "execStmts exec tryB t (VScalar PUndefined) s1 = Some (y, s2)"
    by (auto split: option.splits)
  have f2: "store_rel (address c) s s2" by (rule child_store_rel[OF t execStmts_frame[OF ok b]])
  obtain h s3 where h: "createChildContext c s2 = (h, s3)" by (cases "createChildContext c s2")
  from run TryCatchNode t b h have
    "s' = s2 \<or> (\<exists>e y'. execStmts exec catchB h (VScalar PUndefined)
                     (setVariable h cv (VError e) s3) = Some (y', s'))"
    by (auto split: option.splits signal.splits prod.splits)
  then show ?thesis
  proof (elim disjE exE)
    assume "s' = s2" with f2 show ?thesis by simp
  next
    fix e y' assume "execStmts exec catchB h (VScalar PUndefined)
                     (setVariable h cv (VError e) s3) = Some (y', s')"
    from execStmts_frame[OF ok this] have "store_rel (address h) s3 s'"
      by (rule store_rel_trans[OF setVariable_store_rel])
    from store_rel_trans[OF f2 child_store_rel[OF h this]] show ?thesis .
  qed
qed

lemma execute_ok: "exec_ok (execute n)"
proof (induction n)
  case 0 show ?case by (simp add: exec_ok_def)
next
  case (Suc n)
  show ?case unfolding exec_ok_def execute.simps
    using execNode_frame[OF Suc] by blast
qed

lemma execute_frame:
  "execute n nd c s = Some (r, s') \<Longrightarrow> store_rel (address c) s s'"
  using execute_ok by (rule exec_okD)

subsection \<open>Lookups after a run\<close>

text \<open>
  A lookup from a context reads the frames of that context and of its ancestors, which
  were all created before it. So whatever runs on a child leaves the lookups of its
  parent as they were: in particular an assignment executed on a child context, and a
  whole block.
\<close>

lemma getVariable_cong_below:
  "wf_context p s \<Longrightarrow> (\<forall>a \<le> address p. frames s' a = frames s a)
     \<Longrightarrow> getVariable p x s' = getVariable p x s"
proof (induction p)
  case (Context a par)
  show ?case
  proof (cases par)
    case None
    with Context.prems show ?thesis by (simp split: option.splits)
  next
    case (Some q)
    with Context.prems have "wf_context q s" "\<forall>a' \<le> address q. frames s' a' = frames s a'"
      by auto
    with Context.IH[of q] Some have "getVariable q x s' = getVariable q x s" by simp
    with Context.prems Some show ?thesis by (simp split: option.splits)
  qed
qed

lemma wf_context_address: "wf_context p s \<Longrightarrow> address p < nextContext s"
  by (cases p) simp

lemma store_rel_getVariable:
  assumes "store_rel a s s'" "wf_context p s" "address p < a"
  shows "getVariable p x s' = getVariable p x s"
proof (rule getVariable_cong_below[OF assms(2)])
  show "\<forall>b \<le> address p. frames s' b = frames s b"
    using assms wf_context_address[OF assms(2)] by (auto simp: store_rel_def)
qed

lemma getVariable_own:
  "variables (frames s (address c)) nm = Some v \<Longrightarrow> getVariable c nm s = Inr v"
  by (cases c) simp

lemma assignment_in_child_context:
  assumes wf: "wf_context p s"
    and run: "execute n (AssignmentNode nm e) (Context a (Some p)) s = Some (Inr v, s')"
    and a: "address p < a" "a < nextContext s"
  shows "getVariable p x s' = getVariable p x s"
    and "nm \<noteq> ''__proto__'' \<Longrightarrow> variables (frames s' a) nm = Some v"
    and "nm \<noteq> ''__proto__'' \<Longrightarrow> getVariable (Context a (Some p)) nm s' = Inr v"
proof -
  from run obtain m where n: "n = Suc m" by (cases n) auto
  from run n obtain s1 where e: "execute m e (Context a (Some p)) s = Some (Inr v, s1)"
    and s': "s' = setVariable (Context a (Some p)) nm v s1"
    by (auto split: option.splits sum.splits dest!: writeVariable_Some)
  from s' show own: "variables (frames s' a) nm = Some v" if "nm \<noteq> ''__proto__''"
    using that setVariable_variables(1)[of nm "Context a (Some p)" v s1] by simp
  then show "getVariable (Context a (Some p)) nm s' = Inr v" if "nm \<noteq> ''__proto__''"
    using that by simp
  from execute_frame[OF e] have "store_rel a s s1" by simp
  then have "store_rel a s s'" unfolding s'
    using store_rel_setVariable_after[of "Context a (Some p)" s s1 nm v] by simp
  from store_rel_getVariable[OF this wf] a
  show "getVariable p x s' = getVariable p x s" by simp
qed

lemma block_keeps_enclosing_bindings:
  assumes wf: "wf_context p s" and run: "execute m (BlockNode stmts) p s = Some (r, s')"
  shows "getVariable p x s' = getVariable p x s"
    and "frames s' (address p) = frames s (address p)"
proof -
  from run obtain m' where n: "m = Suc m'" by (cases m) auto
  obtain l s1 where l: "createChildContext p s = (l, s1)" by (cases "createChildContext p s")
  with run n obtain y where
    b: "execStmts (execute m') stmts l (VScalar PUndefined) s1 = Some (y, s')"
    by (auto split: option.splits)
  have r: "store_rel (nextContext s) s s'"
    using child_store_rel[OF l execStmts_frame[OF execute_ok b]] .
  from store_rel_getVariable[OF r wf wf_context_address[OF wf]]
  show "getVariable p x s' = getVariable p x s" .
  from r wf_context_address[OF wf] show "frames s' (address p) = frames s (address p)"
    by (auto simp: store_rel_def)
qed

subsection \<open>New contexts\<close>

text \<open>
  The frame of a new context: the ten built-ins and nothing else as own bindings,
  \<^verbatim>\<open>Object.prototype\<close> as prototype, both flags false. A catch variable, whatever its
  name, then reads as the error it was given.
\<close>

lemma builtin_name_inj: "builtin_name b = builtin_name b' \<Longrightarrow> b = b'"
  by (cases b; cases b'; simp)

lemma builtin_name_not_proto [simp]:
  "builtin_name b \<noteq> ''__proto__''" "''__proto__'' \<noteq> builtin_name b"
  by (cases b; simp)+

lemma fold_setVariable_keep:
  assumes "k \<notin> f ` set xs"
  shows "variables (frames (fold (\<lambda>x. setVariable c (f x) (g x)) xs s) (address c)) k
           = variables (frames s (address c)) k"
  using assms by (induction xs arbitrary: s) (auto simp: setVariable_variables(3))

lemma fold_setVariable_prototype:
  assumes "''__proto__'' \<notin> f ` set xs"
  shows "prototype (frames (fold (\<lambda>x. setVariable c (f x) (g x)) xs s) (address c))
           = prototype (frames s (address c))"
    and "breakSignal (frames (fold (\<lambda>x. setVariable c (f x) (g x)) xs s) (address c))
           = breakSignal (frames s (address c))"
    and "continueSignal (frames (fold (\<lambda>x. setVariable c (f x) (g x)) xs s) (address c))
           = continueSignal (frames s (address c))"
  using assms by (induction xs arbitrary: s) (auto simp: setVariable_variables)

lemma fold_setVariable_lookup:
  "distinct (map f xs) \<Longrightarrow> x \<in> set xs \<Longrightarrow> ''__proto__'' \<notin> f ` set xs \<Longrightarrow>
   variables (frames (fold (\<lambda>x. setVariable c (f x) (g x)) xs s) (address c)) (f x) = Some (g x)"
proof (induction xs arbitrary: s)
  case Nil then show ?case by simp
next
  case (Cons y ys)
  show ?case
  proof (cases "x \<in> set ys")
    case True
    with Cons show ?thesis by simp
  next
    case False
    with Cons.prems have xy: "x = y" and nin: "f y \<notin> f ` set ys" and np: "f y \<noteq> ''__proto__''"
      by auto
    from fold_setVariable_keep[OF nin, of c g "setVariable c (f y) (g y) s"] xy np
    show ?thesis by (simp add: setVariable_variables(1))
  qed
qed

lemma injectBuiltIns_lookup:
  "variables (frames (injectBuiltIns c s) (address c)) (builtin_name b)
     = Some (VFunction (BuiltIn b (address c)))"
proof -
  have d: "distinct (map builtin_name builtins)" by (simp add: builtins_def)
  have m: "b \<in> set builtins" by (cases b) (simp_all add: builtins_def)
  have p: "''__proto__'' \<notin> builtin_name ` set builtins" by auto
  show ?thesis unfolding injectBuiltIns_def
    by (rule fold_setVariable_lookup[OF d m p])
qed

lemma injectBuiltIns_frame:
  "prototype (frames (injectBuiltIns c s) (address c)) = prototype (frames s (address c))"
  "breakSignal (frames (injectBuiltIns c s) (address c)) = breakSignal (frames s (address c))"
  "continueSignal (frames (injectBuiltIns c s) (address c)) = continueSignal (frames s (address c))"
  "nm \<notin> range builtin_name \<Longrightarrow>
     variables (frames (injectBuiltIns c s) (address c)) nm = variables (frames s (address c)) nm"
proof -
  have p: "''__proto__'' \<notin> builtin_name ` set builtins" by auto
  show "prototype (frames (injectBuiltIns c s) (address c)) = prototype (frames s (address c))"
    "breakSignal (frames (injectBuiltIns c s) (address c)) = breakSignal (frames s (address c))"
    "continueSignal (frames (injectBuiltIns c s) (address c)) = continueSignal (frames s (address c))"
    unfolding injectBuiltIns_def by (rule fold_setVariable_prototype[OF p])+
  show "variables (frames (injectBuiltIns c s) (address c)) nm = variables (frames s (address c)) nm"
    if "nm \<notin> range builtin_name"
    unfolding injectBuiltIns_def by (rule fold_setVariable_keep) (use that in auto)
qed

lemma new_ExecutionContext_frame:
  assumes "new_ExecutionContext p s = (c, s1)"
  shows "c = Context (nextContext s) p"
    and "variables (frames s1 (address c)) (builtin_name b) = Some (VFunction (BuiltIn b (address c)))"
    and "nm \<notin> range builtin_name \<Longrightarrow> variables (frames s1 (address c)) nm = None"
    and "prototype (frames s1 (address c)) = VObjectPrototype"
    and "\<not> breakSignal (frames s1 (address c))" and "\<not> continueSignal (frames s1 (address c))"
proof -
  let ?c = "Context (nextContext s) p"
  let ?s0 = "s\<lparr>frames := (frames s)(nextContext s :=
                    \<lparr>variables = Map.empty, prototype = VObjectPrototype,
                     breakSignal = False, continueSignal = False\<rparr>),
                  nextContext := Suc (nextContext s)\<rparr>"
  from assms have c: "c = ?c" and s1: "s1 = injectBuiltIns ?c ?s0"
    by (auto simp: new_ExecutionContext_def Let_def)
  from c show "c = Context (nextContext s) p" .
  from injectBuiltIns_lookup[of ?c ?s0 b] c s1
  show "variables (frames s1 (address c)) (builtin_name b) = Some (VFunction (BuiltIn b (address c)))"
    by simp
  from injectBuiltIns_frame(4)[of nm ?c ?s0] c s1
  show "variables (frames s1 (address c)) nm = None" if "nm \<notin> range builtin_name"
    using that by simp
  from injectBuiltIns_frame(1)[of ?c ?s0] c s1
  show "prototype (frames s1 (address c)) = VObjectPrototype" by simp
  from injectBuiltIns_frame(2)[of ?c ?s0] c s1
  show "\<not> breakSignal (frames s1 (address c))" by simp
  from injectBuiltIns_frame(3)[of ?c ?s0] c s1
  show "\<not> continueSignal (frames s1 (address c))" by simp
qed

lemma createChildContext_frame:
  assumes "createChildContext q s = (c, s1)"
  shows "c = Context (nextContext s) (Some q)"
    and "variables (frames s1 (address c)) (builtin_name b) = Some (VFunction (BuiltIn b (address c)))"
    and "nm \<notin> range builtin_name \<Longrightarrow> variables (frames s1 (address c)) nm = None"
    and "prototype (frames s1 (address c)) = VObjectPrototype"
    and "\<not> breakSignal (frames s1 (address c))" and "\<not> continueSignal (frames s1 (address c))"
  using assms new_ExecutionContext_frame[of "Some q" s c s1]
  by (simp_all add: createChildContext_def)

lemma proto_not_builtin [simp]: "''__proto__'' \<notin> range builtin_name"
  by auto

lemma catch_variable_bound:
  assumes "createChildContext q s = (c, s1)"
  shows "getVariable c nm (setVariable c nm (VError e) s1) = Inr (VError e)"
proof (cases "nm = ''__proto__''")
  case False
  then have "variables (frames (setVariable c nm (VError e) s1) (address c)) nm = Some (VError e)"
    by (simp add: setVariable_variables(1))
  then show ?thesis by (rule getVariable_own)
next
  case True
  have own: "variables (frames s1 (address c)) ''__proto__'' = None"
    by (rule createChildContext_frame(3)[OF assms]) simp
  have pr: "prototype (frames s1 (address c)) \<noteq> VScalar PNull"
    using createChildContext_frame(4)[OF assms] by simp
  from setVariable_proto[OF own pr, of "VError e"] True own show ?thesis
    by (cases c) (simp add: inherited_def)
qed

subsection \<open>Signals that leave a loop or a try\<close>

lemma whileLoop_absorbs:
  "whileLoop k exec cond body c res s = Some (Inl sg, s') \<Longrightarrow> sg = BreakSignal \<or> sg = ContinueSignal
    \<Longrightarrow> \<exists>t. exec cond c t = Some (Inl sg, s')"
proof (induction k arbitrary: res s)
  case 0 then show ?case by simp
next
  case (Suc k)
  from Suc.prems(1) obtain y where y: "exec cond c s = Some y" by (cases "exec cond c s") auto
  obtain rc s1 where ys: "y = (rc, s1)" by (cases y)
  show ?case
  proof (cases rc)
    case (Inl sg1)
    with Suc.prems(1) y ys have "exec cond c s = Some (Inl sg, s')" by simp
    then show ?thesis ..
  next
    case (Inr v)
    with Suc.prems y ys have "\<exists>r t. whileLoop k exec cond body c r t = Some (Inl sg, s')"
      by (auto simp: case_prod_unfold Let_def split: option.splits if_splits signal.splits)
    then obtain r t where "whileLoop k exec cond body c r t = Some (Inl sg, s')" by blast
    from Suc.IH[OF this Suc.prems(2)] show ?thesis .
  qed
qed

lemma tryCatch_absorbs:
  assumes "execNode exec j (TryCatchNode tryBlock catchVar catchBlock) c u = Some (Inl (Error e), u')"
  shows "\<exists>ctx st r. execStmts exec catchBlock ctx (VScalar PUndefined) st
           = Some ((Some (Error e), r), u')"
proof -
  let ?t = "fst (createChildContext c u)"
  let ?u1 = "snd (createChildContext c u)"
  from assms obtain y where y: "execStmts exec tryBlock ?t (VScalar PUndefined) ?u1 = Some y"
    by (cases "execStmts exec tryBlock ?t (VScalar PUndefined) ?u1")
      (auto simp: case_prod_unfold Let_def)
  obtain th r u2 where ys: "y = ((th, r), u2)" by (cases y) auto
  from assms y ys obtain err where err: "th = Some (Error err)"
    by (auto simp: case_prod_unfold Let_def split: option.splits signal.splits)
  let ?h = "fst (createChildContext c u2)"
  let ?u4 = "setVariable ?h catchVar (VError err) (snd (createChildContext c u2))"
  from assms y ys err obtain r' where
    "execStmts exec catchBlock ?h (VScalar PUndefined) ?u4 = Some ((Some (Error e), r'), u')"
    by (auto simp: case_prod_unfold Let_def split: option.splits)
  then show ?thesis by blast
qed

subsection \<open>Calls\<close>

text \<open>
  The assignments of arguments to parameters, one after the other on the new frame, and
  what a call can return; the entries of a cache once stored.
\<close>

lemma createChildContext_fst [simp]:
  "fst (createChildContext p s) = Context (nextContext s) (Some p)"
  by (simp add: createChildContext_def new_ExecutionContext_def Let_def)


lemma writeVariable_plain:
  "prototype (frames s (address c)) = VObjectPrototype \<or> prototype (frames s (address c)) = VScalar PNull
   \<Longrightarrow> writeVariable c nm v s = Some (setVariable c nm v s)"
  by (auto simp: writeVariable_def hostDefined_def)

lemma writeVariable_proto:
  "writeVariable c ''__proto__'' v s = Some (setVariable c ''__proto__'' v s)"
  by (simp add: writeVariable_def hostDefined_def)












subsection \<open>Names assigned by a run\<close>

text \<open>
  A run on a context changes the own binding of a name in the record of that context
  only through a declaration or an assignment of that name executed on the context
  itself.
\<close>

lemma exec_keepsD:
  "exec_keeps exec \<Longrightarrow> exec nd c s = Some (r, s') \<Longrightarrow> address c < nextContext s
   \<Longrightarrow> nm \<notin> assigned nd
   \<Longrightarrow> variables (frames s' (address c)) nm = variables (frames s (address c)) nm"
  unfolding exec_keeps_def by blast

lemma store_rel_other:
  "store_rel x s s' \<Longrightarrow> a < nextContext s \<Longrightarrow> a \<noteq> x \<Longrightarrow> frames s' a = frames s a"
  by (simp add: store_rel_def)

lemma store_rel_next: "store_rel x s s' \<Longrightarrow> nextContext s \<le> nextContext s'"
  by (simp add: store_rel_def)

lemma store_rel_any:
  assumes "\<And>x. store_rel x s s'" "a < nextContext s"
  shows "frames s' a = frames s a"
  using store_rel_other[OF assms(1)[of "Suc a"] assms(2)] by simp

lemma child_run_keeps:
  assumes "createChildContext c s = (l, s1)" "store_rel (address l) s1 s2" "a < nextContext s"
  shows "frames s2 a = frames s a"
  by (rule store_rel_any[OF child_store_rel[OF assms(1,2)] assms(3)])

lemma execStmts_keeps:
  "exec_ok exec \<Longrightarrow> exec_keeps exec \<Longrightarrow> execStmts exec stmts c res s = Some (x, s')
   \<Longrightarrow> address c < nextContext s \<Longrightarrow> \<forall>st \<in> set stmts. nm \<notin> assigned st
   \<Longrightarrow> variables (frames s' (address c)) nm = variables (frames s (address c)) nm"
proof (induction stmts arbitrary: res s)
  case Nil then show ?case by simp
next
  case (Cons st rest)
  from Cons.prems(3) obtain r s1 where e: "exec st c s = Some (r, s1)"
    by (cases "exec st c s") auto
  from Cons.prems(5) have n: "nm \<notin> assigned st" by simp
  note k1 = exec_keepsD[OF Cons.prems(2) e Cons.prems(4) n]
  from store_rel_next[OF exec_okD[OF Cons.prems(1) e]] Cons.prems(4)
  have lt: "address c < nextContext s1" by simp
  show ?case
  proof (cases r)
    case (Inl sg) with Cons.prems(3) e k1 show ?thesis by auto
  next
    case (Inr v)
    with Cons.prems(3) e have "execStmts exec rest c v s1 = Some (x, s')" by simp
    from Cons.IH[OF Cons.prems(1,2) this lt] Cons.prems(5) k1 show ?thesis by simp
  qed
qed

lemma evalArgs_keeps:
  "exec_ok exec \<Longrightarrow> exec_keeps exec \<Longrightarrow> evalArgs exec args c s = Some (x, s')
   \<Longrightarrow> address c < nextContext s \<Longrightarrow> \<forall>a \<in> set args. nm \<notin> assigned a
   \<Longrightarrow> variables (frames s' (address c)) nm = variables (frames s (address c)) nm"
proof (induction args arbitrary: x s)
  case Nil then show ?case by simp
next
  case (Cons arg rest)
  let ?first = "(case arg of
              FunctionLiteralNode fname params body dpt drt pure \<Rightarrow>
                (let (v, s1) = FunctionLiteral_toFunction params body pure c s
                 in Some (Inr v, s1))
            | _ \<Rightarrow> exec arg c s)"
  from Cons.prems(5) have n: "nm \<notin> assigned arg" by simp
  have first: "variables (frames s1 (address c)) nm = variables (frames s (address c)) nm
      \<and> nextContext s \<le> nextContext s1" if "?first = Some (r, s1)" for r s1
  proof (cases "\<exists>fname params body dpt drt pure. arg = FunctionLiteralNode fname params body dpt drt pure")
    case True
    with that show ?thesis
      by (auto simp: FunctionLiteral_toFunction_def split: if_splits)
  next
    case False
    with that have e: "exec arg c s = Some (r, s1)" by (cases arg) auto
    from exec_keepsD[OF Cons.prems(2) e Cons.prems(4) n]
      store_rel_next[OF exec_okD[OF Cons.prems(1) e]] show ?thesis by simp
  qed
  from Cons.prems(3) obtain r s1 where f: "?first = Some (r, s1)"
    by (cases ?first) (auto simp del: node.case)
  show ?case
  proof (cases r)
    case (Inl sg)
    with Cons.prems(3) f have "s' = s1" by (simp del: node.case)
    with first[OF f] show ?thesis by simp
  next
    case (Inr v)
    with Cons.prems(3) f obtain y where y: "evalArgs exec rest c s1 = Some (y, s')"
      by (auto simp del: node.case split: option.splits sum.splits)
    from first[OF f] Cons.prems(4) have lt: "address c < nextContext s1" by simp
    from Cons.IH[OF Cons.prems(1,2) y lt] Cons.prems(5) first[OF f] show ?thesis by simp
  qed
qed

lemma whileLoop_keeps:
  "exec_ok exec \<Longrightarrow> exec_keeps exec \<Longrightarrow> whileLoop k exec cond body c res s = Some (r, s')
   \<Longrightarrow> address c < nextContext s \<Longrightarrow> nm \<notin> assigned cond
   \<Longrightarrow> \<forall>st \<in> set body. nm \<notin> assigned st
   \<Longrightarrow> variables (frames s' (address c)) nm = variables (frames s (address c)) nm"
proof (induction k arbitrary: res s)
  case 0 then show ?case by simp
next
  case (Suc k)
  from Suc.prems(3) obtain rc s1 where c1: "exec cond c s = Some (rc, s1)"
    by (cases "exec cond c s") auto
  note k1 = exec_keepsD[OF Suc.prems(2) c1 Suc.prems(4,5)]
  from store_rel_next[OF exec_okD[OF Suc.prems(1) c1]] Suc.prems(4)
  have lt1: "address c < nextContext s1" by simp
  obtain l s2 where l: "createChildContext c s1 = (l, s2)" by (cases "createChildContext c s1")
  from createChildContext_props[OF l] lt1
  have k2: "frames s2 (address c) = frames s1 (address c)" and lt2: "address c < nextContext s2"
    by auto
  show ?case
  proof (cases "\<exists>v. rc = Inr v \<and> asBoolean v = Some True")
    case False
    with Suc.prems(3) c1 have "s' = s1"
      by (auto split: sum.splits option.splits if_splits)
    with k1 show ?thesis by simp
  next
    case True
    with Suc.prems(3) c1 l obtain y s3 where
      b: "execStmts exec body c res s2 = Some (y, s3)"
      and rest: "s' = s3 \<or> (\<exists>r'. whileLoop k exec cond body c r' s3 = Some (r, s'))"
      by (auto split: option.splits signal.splits if_splits) blast+
    note k3 = execStmts_keeps[OF Suc.prems(1,2) b lt2 Suc.prems(6)]
    from store_rel_next[OF execStmts_frame[OF Suc.prems(1) b]] lt2
    have lt3: "address c < nextContext s3" by simp
    from k1 k2 k3 have k03: "variables (frames s3 (address c)) nm = variables (frames s (address c)) nm"
      by simp
    from rest show ?thesis
    proof
      assume "s' = s3" with k03 show ?thesis by simp
    next
      assume "\<exists>r'. whileLoop k exec cond body c r' s3 = Some (r, s')"
      then obtain r' where "whileLoop k exec cond body c r' s3 = Some (r, s')" ..
      from Suc.IH[OF Suc.prems(1,2) this lt3 Suc.prems(5,6)] k03 show ?thesis by simp
    qed
  qed
qed

lemma forTry_keeps:
  assumes ok: "exec_ok exec" and keeps: "exec_keeps exec"
    and run: "forTry exec body update l c res s2 = Some (y, s')"
    and mk: "createChildContext c s1 = (l, s2)"
    and lt: "address c < nextContext s1" and n: "nm \<notin> assigned update"
  shows "variables (frames s' (address c)) nm = variables (frames s1 (address c)) nm
     \<and> address c < nextContext s'"
proof -
  from run obtain y1 t1 where b: "execStmts exec body l res s2 = Some (y1, t1)"
    and rest: "s' = t1 \<or> (\<exists>ru. exec update c t1 = Some (ru, s'))"
    by (auto simp: forTry_def split: option.splits sum.splits)
  note f = execStmts_frame[OF ok b]
  from child_run_keeps[OF mk f lt]
  have k1: "frames t1 (address c) = frames s1 (address c)" .
  from store_rel_next[OF f] createChildContext_props(2)[OF mk] lt
  have lt1: "address c < nextContext t1" by simp
  from rest show ?thesis
  proof
    assume "s' = t1" with k1 lt1 show ?thesis by simp
  next
    assume "\<exists>ru. exec update c t1 = Some (ru, s')"
    then obtain ru where u: "exec update c t1 = Some (ru, s')" ..
    from exec_keepsD[OF keeps u lt1 n] k1 store_rel_next[OF exec_okD[OF ok u]] lt1
    show ?thesis by simp
  qed
qed

lemma forLoop_keeps:
  "exec_ok exec \<Longrightarrow> exec_keeps exec \<Longrightarrow> forLoop k exec cond update body c res s = Some (r, s')
   \<Longrightarrow> address c < nextContext s \<Longrightarrow> nm \<notin> assigned cond \<Longrightarrow> nm \<notin> assigned update
   \<Longrightarrow> variables (frames s' (address c)) nm = variables (frames s (address c)) nm"
proof (induction k arbitrary: res s)
  case 0 then show ?case by simp
next
  case (Suc k)
  from Suc.prems(3) obtain rc s1 where c1: "exec cond c s = Some (rc, s1)"
    by (cases "exec cond c s") auto
  note k1 = exec_keepsD[OF Suc.prems(2) c1 Suc.prems(4,5)]
  from store_rel_next[OF exec_okD[OF Suc.prems(1) c1]] Suc.prems(4)
  have lt1: "address c < nextContext s1" by simp
  obtain l s2 where l: "createChildContext c s1 = (l, s2)" by (cases "createChildContext c s1")
  show ?case
  proof (cases "\<exists>v. rc = Inr v \<and> asBoolean v = Some True")
    case False
    with Suc.prems(3) c1 have "s' = s1"
      by (auto split: sum.splits option.splits if_splits)
    with k1 show ?thesis by simp
  next
    case True
    with Suc.prems(3) c1 l obtain y s4 where
      b: "forTry exec body update l c res s2 = Some (y, s4)"
      and rest: "s' = s4 \<or> (\<exists>r'. forLoop k exec cond update body c r' s4 = Some (r, s'))
         \<or> (\<exists>ru s5. exec update c s4 = Some (ru, s5) \<and>
               (s' = s5 \<or> (\<exists>r'. forLoop k exec cond update body c r' s5 = Some (r, s'))))"
      by (auto split: option.splits signal.splits sum.splits if_splits) blast+
    from forTry_keeps[OF Suc.prems(1,2) b l lt1 Suc.prems(6)] k1
    have k4: "variables (frames s4 (address c)) nm = variables (frames s (address c)) nm"
      and lt4: "address c < nextContext s4" by simp_all
    from rest show ?thesis
    proof (elim disjE exE conjE)
      assume "s' = s4" with k4 show ?thesis by simp
    next
      fix r' assume "forLoop k exec cond update body c r' s4 = Some (r, s')"
      from Suc.IH[OF Suc.prems(1,2) this lt4 Suc.prems(5,6)] k4 show ?thesis by simp
    next
      fix ru s5 assume u: "exec update c s4 = Some (ru, s5)" and "s' = s5"
      with exec_keepsD[OF Suc.prems(2) u lt4 Suc.prems(6)] k4 show ?thesis by simp
    next
      fix ru s5 r' assume u: "exec update c s4 = Some (ru, s5)"
        and f: "forLoop k exec cond update body c r' s5 = Some (r, s')"
      from store_rel_next[OF exec_okD[OF Suc.prems(1) u]] lt4
      have lt5: "address c < nextContext s5" by simp
      from Suc.IH[OF Suc.prems(1,2) f lt5 Suc.prems(5,6)]
        exec_keepsD[OF Suc.prems(2) u lt4 Suc.prems(6)] k4 show ?thesis by simp
    qed
  qed
qed

lemma doWhileLoop_keeps:
  "exec_ok exec \<Longrightarrow> exec_keeps exec \<Longrightarrow> doWhileLoop k exec body cond c res s = Some (r, s')
   \<Longrightarrow> address c < nextContext s \<Longrightarrow> nm \<notin> assigned cond
   \<Longrightarrow> variables (frames s' (address c)) nm = variables (frames s (address c)) nm"
proof (induction k arbitrary: res s)
  case 0 then show ?case by simp
next
  case (Suc k)
  obtain l s1 where l: "createChildContext c s = (l, s1)" by (cases "createChildContext c s")
  with Suc.prems(3) obtain y s2 where
    b: "execStmts exec body l res s1 = Some (y, s2)"
    and rest: "s' = s2 \<or> (\<exists>rc s3. exec cond c s2 = Some (rc, s3) \<and>
               (s' = s3 \<or> (\<exists>r'. doWhileLoop k exec body cond c r' s3 = Some (r, s'))))"
    by (auto split: option.splits signal.splits sum.splits if_splits) blast+
  note f = execStmts_frame[OF Suc.prems(1) b]
  from child_run_keeps[OF l f Suc.prems(4)]
  have k2: "frames s2 (address c) = frames s (address c)" .
  from store_rel_next[OF f] createChildContext_props(2)[OF l] Suc.prems(4)
  have lt2: "address c < nextContext s2" by simp
  from rest show ?case
  proof (elim disjE exE conjE)
    assume "s' = s2" with k2 show ?thesis by simp
  next
    fix rc s3 assume u: "exec cond c s2 = Some (rc, s3)" and "s' = s3"
    with exec_keepsD[OF Suc.prems(2) u lt2 Suc.prems(5)] k2 show ?thesis by simp
  next
    fix rc s3 r' assume u: "exec cond c s2 = Some (rc, s3)"
      and d: "doWhileLoop k exec body cond c r' s3 = Some (r, s')"
    from store_rel_next[OF exec_okD[OF Suc.prems(1) u]] lt2
    have lt3: "address c < nextContext s3" by simp
    from Suc.IH[OF Suc.prems(1,2) d lt3 Suc.prems(5)]
      exec_keepsD[OF Suc.prems(2) u lt2 Suc.prems(5)] k2 show ?thesis by simp
  qed
qed

lemma execNode_keeps:
  assumes ok: "exec_ok exec" and keeps: "exec_keeps exec"
    and run: "execNode exec k nd c s = Some (r, s')"
    and lt: "address c < nextContext s" and n: "nm \<notin> assigned nd"
  shows "variables (frames s' (address c)) nm = variables (frames s (address c)) nm"
proof (cases nd)
  case (VariableDeclarationNode varType x e)
  with n have nx: "nm \<noteq> x" and ne: "nm \<notin> assigned e" by auto
  show ?thesis
  proof (cases "varType = ''function''")
    case True
    with run VariableDeclarationNode nx show ?thesis
      by (cases e)
        (auto simp: ArrowFunction_toFunction_def FunctionLiteral_toFunction_def
           setVariable_variables(3)
           split: prod.splits option.splits if_splits dest!: writeVariable_Some)
  next
    case False
    with run VariableDeclarationNode obtain r1 s1 where
      e: "exec e c s = Some (r1, s1)" and s': "s' = s1 \<or> (\<exists>v. s' = setVariable c x v s1)"
      by (auto split: option.splits sum.splits if_splits dest!: writeVariable_Some) blast+
    from exec_keepsD[OF keeps e lt ne] s' nx show ?thesis
      by (auto simp: setVariable_variables(3))
  qed
next
  case (AssignmentNode x e)
  with n have nx: "nm \<noteq> x" and ne: "nm \<notin> assigned e" by auto
  from run AssignmentNode obtain r1 s1 where
    e: "exec e c s = Some (r1, s1)" and s': "s' = s1 \<or> (\<exists>v. s' = setVariable c x v s1)"
    by (auto split: option.splits sum.splits dest!: writeVariable_Some) blast+
  from exec_keepsD[OF keeps e lt ne] s' nx show ?thesis
    by (auto simp: setVariable_variables(3))
next
  case (ReturnNode e)
  with run n show ?thesis
    by (auto split: option.splits sum.splits dest: exec_keepsD[OF keeps _ lt])
next
  case BreakNode with run show ?thesis by simp
next
  case ContinueNode with run show ?thesis by simp
next
  case (ErrorNode e)
  with run n show ?thesis
    by (auto split: option.splits sum.splits dest: exec_keepsD[OF keeps _ lt])
next
  case (FunctionLiteralNode fname ps body dpt drt pure) with run show ?thesis by simp
next
  case (ArrowFunctionNode ps body) with run show ?thesis by simp
next
  case (FunctionCallNode fname args)
  with n have na: "\<forall>a \<in> set args. nm \<notin> assigned a" by simp
  show ?thesis
  proof (cases "\<exists>f. getVariable c fname s = Inr (VFunction f)")
    case False
    with run FunctionCallNode have "s' = s" by (auto split: sum.splits val.splits if_splits)
    then show ?thesis by simp
  next
    case True
    then obtain f where f: "getVariable c fname s = Inr (VFunction f)" ..
    with run FunctionCallNode obtain ra s1 where
      a: "evalArgs exec args c s = Some (ra, s1)"
      and rest: "s' = s1 \<or> (\<exists>vs. call exec f vs s1 = Some (r, s'))"
      by (auto split: option.splits sum.splits if_splits) blast+
    note k1 = evalArgs_keeps[OF ok keeps a lt na]
    from store_rel_next[OF evalArgs_frame[OF ok a]] lt have lt1: "address c < nextContext s1"
      by simp
    from rest show ?thesis
    proof
      assume "s' = s1" with k1 show ?thesis by simp
    next
      assume "\<exists>vs. call exec f vs s1 = Some (r, s')"
      then obtain vs where cl: "call exec f vs s1 = Some (r, s')" ..
      have "frames s' (address c) = frames s1 (address c)"
        by (rule store_rel_any[OF call_frame[OF ok cl] lt1])
      with k1 show ?thesis by simp
    qed
  qed
next
  case (LiteralNode v) with run show ?thesis by simp
next
  case (VariableReferenceNode x)
  with run show ?thesis by (auto split: sum.splits if_splits)
next
  case (BlockNode stmts)
  obtain l s1 where l: "createChildContext c s = (l, s1)" by (cases "createChildContext c s")
  with run BlockNode obtain y where "execStmts exec stmts l (VScalar PUndefined) s1 = Some (y, s')"
    by (auto split: option.splits)
  from child_run_keeps[OF l execStmts_frame[OF ok this] lt] show ?thesis by simp
next
  case (IfNode cond thenB elseB)
  with n have nc: "nm \<notin> assigned cond" by simp
  from run IfNode obtain rc s1 where c1: "exec cond c s = Some (rc, s1)"
    by (cases "exec cond c s") auto
  note k1 = exec_keepsD[OF keeps c1 lt nc]
  from store_rel_next[OF exec_okD[OF ok c1]] lt have lt1: "address c < nextContext s1" by simp
  obtain l s2 where l: "createChildContext c s1 = (l, s2)" by (cases "createChildContext c s1")
  from run IfNode c1 l have "s' = s1 \<or> (\<exists>br y. execStmts exec br l (VScalar PUndefined) s2 = Some (y, s'))"
    by (auto simp: Let_def split: option.splits sum.splits)
  then show ?thesis
  proof (elim disjE exE)
    assume "s' = s1" with k1 show ?thesis by simp
  next
    fix br y assume "execStmts exec br l (VScalar PUndefined) s2 = Some (y, s')"
    from child_run_keeps[OF l execStmts_frame[OF ok this] lt1] k1 show ?thesis by simp
  qed
next
  case (SignalNode sg)
  with run show ?thesis
    by (cases sg) (auto simp: setBreakSignal_def setContinueSignal_def)
next
  case (WhileNode cond body)
  with run n show ?thesis by (auto dest: whileLoop_keeps[OF ok keeps _ lt])
next
  case (ForNode init cond update body)
  with n have ni: "nm \<notin> assigned init" and nc: "nm \<notin> assigned cond"
    and nu: "nm \<notin> assigned update" by auto
  from run ForNode obtain ri s1 where i: "exec init c s = Some (ri, s1)"
    and rest: "s' = s1 \<or> forLoop k exec cond update body c (VScalar PUndefined) s1 = Some (r, s')"
    by (auto split: option.splits sum.splits)
  note k1 = exec_keepsD[OF keeps i lt ni]
  from store_rel_next[OF exec_okD[OF ok i]] lt have lt1: "address c < nextContext s1" by simp
  from rest k1 show ?thesis
    by (auto dest: forLoop_keeps[OF ok keeps _ lt1 nc nu])
next
  case (DoWhileNode body cond)
  with run n show ?thesis by (auto dest: doWhileLoop_keeps[OF ok keeps _ lt])
next
  case (TryCatchNode tryB cv catchB)
  obtain t s1 where t: "createChildContext c s = (t, s1)" by (cases "createChildContext c s")
  with run TryCatchNode obtain y s2 where
    b: "execStmts exec tryB t (VScalar PUndefined) s1 = Some (y, s2)"
    by (auto split: option.splits)
  note f2 = child_store_rel[OF t execStmts_frame[OF ok b]]
  have k2: "frames s2 (address c) = frames s (address c)"
    by (rule store_rel_any[OF f2 lt])
  from store_rel_next[OF f2] lt have lt2: "address c < nextContext s2" by simp
  obtain h s3 where h: "createChildContext c s2 = (h, s3)" by (cases "createChildContext c s2")
  from run TryCatchNode t b h have
    "s' = s2 \<or> (\<exists>e y'. execStmts exec catchB h (VScalar PUndefined)
                     (setVariable h cv (VError e) s3) = Some (y', s'))"
    by (auto split: option.splits signal.splits prod.splits)
  then show ?thesis
  proof (elim disjE exE)
    assume "s' = s2" with k2 show ?thesis by simp
  next
    fix e y' assume "execStmts exec catchB h (VScalar PUndefined)
                     (setVariable h cv (VError e) s3) = Some (y', s')"
    from execStmts_frame[OF ok this] have "store_rel (address h) s3 s'"
      by (rule store_rel_trans[OF setVariable_store_rel])
    from child_run_keeps[OF h this lt2] k2 show ?thesis by simp
  qed
qed

lemma execute_keeps_all: "exec_keeps (execute n)"
proof (induction n)
  case 0 show ?case by (simp add: exec_keeps_def)
next
  case (Suc n)
  show ?case unfolding exec_keeps_def execute.simps
    using execNode_keeps[OF execute_ok Suc] by blast
qed

lemma execute_keeps:
  "execute n nd c s = Some (r, s') \<Longrightarrow> address c < nextContext s \<Longrightarrow> nm \<notin> assigned nd
   \<Longrightarrow> variables (frames s' (address c)) nm = variables (frames s (address c)) nm"
  using execute_keeps_all by (rule exec_keepsD)

lemma compareTypes_Prim:
  "compareTypes (Prim x) c = (c = Prim x)" "compareTypes c (Prim x) = (c = Prim x)"
  by (cases c; auto)+

subsection \<open>The bound on the evaluation\<close>

text \<open>
  A result does not depend on the bound: once a run yields a result under a bound, it
  yields the same result under every larger bound.
\<close>

lemma exec_leD: "exec_le exec exec' \<Longrightarrow> exec nd c s = Some r \<Longrightarrow> exec' nd c s = Some r"
  unfolding exec_le_def by blast

lemma execStmts_mono:
  "exec_le exec exec' \<Longrightarrow> execStmts exec stmts c res s = Some x
    \<Longrightarrow> execStmts exec' stmts c res s = Some x"
proof (induction stmts arbitrary: res s)
  case Nil then show ?case by simp
next
  case (Cons st rest)
  from Cons.prems(2) obtain y where y: "exec st c s = Some y" by (cases "exec st c s") auto
  from exec_leD[OF Cons.prems(1) y] have y': "exec' st c s = Some y" .
  from Cons.prems(2) y y' Cons.IH[OF Cons.prems(1)] show ?case
    by (auto split: prod.splits sum.splits)
qed

lemma evalArgs_mono:
  "exec_le exec exec' \<Longrightarrow> evalArgs exec args c s = Some x
    \<Longrightarrow> evalArgs exec' args c s = Some x"
proof (induction args arbitrary: x s)
  case Nil then show ?case by simp
next
  case (Cons arg rest)
  let ?first = "\<lambda>ex. (case arg of
              FunctionLiteralNode fname params body dpt drt pure \<Rightarrow>
                (let (v, s1) = FunctionLiteral_toFunction params body pure c s
                 in Some (Inr v, s1))
            | _ \<Rightarrow> ex arg c s)"
  from Cons.prems(2) obtain y where y: "?first exec = Some y"
    by (cases "?first exec") (auto simp del: node.case)
  have y': "?first exec' = Some y"
    using y exec_leD[OF Cons.prems(1), of arg c s y] by (cases arg) auto
  obtain r s1 where ys: "y = (r, s1)" by (cases y)
  show ?case
  proof (cases r)
    case (Inl sg)
    with Cons.prems(2) y y' ys show ?thesis by (simp del: node.case)
  next
    case (Inr v)
    with Cons.prems(2) y ys obtain z where z: "evalArgs exec rest c s1 = Some z"
      by (cases "evalArgs exec rest c s1") (auto simp del: node.case)
    from Cons.IH[OF Cons.prems(1) z] have z': "evalArgs exec' rest c s1 = Some z" .
    from Cons.prems(2) y y' ys Inr z z' show ?thesis by (simp del: node.case)
  qed
qed

lemma fn_mono:
  assumes "exec_le exec exec'" "fn exec ps body outer args s = Some x"
  shows "fn exec' ps body outer args s = Some x"
proof (cases "length args \<noteq> length ps")
  case True
  with assms(2) show ?thesis by (simp add: fn_def case_prod_unfold)
next
  case False
  let ?l = "fst (createChildContext outer s)"
  from assms(2) False obtain s2 where
    b: "bindParams ?l ps args (snd (createChildContext outer s)) = Some s2"
    by (cases "bindParams ?l ps args (snd (createChildContext outer s))")
      (auto simp: fn_def case_prod_unfold Let_def)
  from assms(2) False b obtain y where y: "execStmts exec body ?l (VScalar PUndefined) s2 = Some y"
    by (cases "execStmts exec body ?l (VScalar PUndefined) s2")
      (auto simp: fn_def case_prod_unfold Let_def)
  from execStmts_mono[OF assms(1) y] assms(2) y b False show ?thesis
    by (simp add: fn_def case_prod_unfold Let_def)
qed

lemma call_mono:
  assumes "exec_le exec exec'" "call exec f args s = Some x"
  shows "call exec' f args s = Some x"
proof (cases f)
  case (BuiltIn b owner)
  with assms(2) show ?thesis by simp
next
  case (FunctionClosure ps body outer memo)
  show ?thesis
  proof (cases "\<exists>y. fn exec ps body outer args s = Some y")
    case True
    then obtain y where y: "fn exec ps body outer args s = Some y" ..
    from fn_mono[OF assms(1) y] assms(2) y FunctionClosure show ?thesis
      by (auto simp: Let_def split: option.splits sum.splits)
  next
    case False
    then have "fn exec ps body outer args s = None"
      by (cases "fn exec ps body outer args s") auto
    with assms(2) FunctionClosure show ?thesis
      by (auto simp: Let_def split: option.splits sum.splits)
  qed
next
  case (ArrowClosure ps body outer)
  with assms(2) obtain s2 where
    b: "bindParams (fst (createChildContext outer s)) ps args (snd (createChildContext outer s))
          = Some s2"
    and e: "exec body (fst (createChildContext outer s)) s2 = Some x"
    by (auto simp: case_prod_unfold Let_def split: option.splits)
  from exec_leD[OF assms(1) e] b ArrowClosure show ?thesis
    by (simp add: case_prod_unfold Let_def)
next
  case (HostFunction nm)
  with assms(2) show ?thesis by simp
qed

lemma whileLoop_mono:
  "exec_le exec exec' \<Longrightarrow> k \<le> k' \<Longrightarrow> whileLoop k exec cond body c res s = Some x
    \<Longrightarrow> whileLoop k' exec' cond body c res s = Some x"
proof (induction k arbitrary: k' res s)
  case 0 then show ?case by simp
next
  case (Suc k)
  from Suc.prems(2) obtain j where k': "k' = Suc j" and kj: "k \<le> j" by (cases k') auto
  from Suc.prems(3) obtain y where y: "exec cond c s = Some y" by (cases "exec cond c s") auto
  from exec_leD[OF Suc.prems(1) y] have y': "exec' cond c s = Some y" .
  obtain rc s1 where ys: "y = (rc, s1)" by (cases y)
  show ?case
  proof (cases "\<exists>v. rc = Inr v \<and> asBoolean v = Some True")
    case False
    with Suc.prems(3) y y' ys k' show ?thesis
      by (auto split: sum.splits option.splits if_splits)
  next
    case True
    let ?s2 = "snd (createChildContext c s1)"
    from True Suc.prems(3) y ys obtain z where z: "execStmts exec body c res ?s2 = Some z"
      by (cases "execStmts exec body c res ?s2") (auto simp: case_prod_unfold)
    from execStmts_mono[OF Suc.prems(1) z] have z': "execStmts exec' body c res ?s2 = Some z" .
    from True Suc.prems(3) y y' ys z z' k' Suc.IH[OF Suc.prems(1) kj] show ?thesis
      by (auto simp: case_prod_unfold split: option.splits signal.splits if_splits prod.splits)
  qed
qed

lemma forTry_mono:
  assumes "exec_le exec exec'" "forTry exec body update l c res s = Some x"
  shows "forTry exec' body update l c res s = Some x"
proof -
  from assms(2) obtain y where y: "execStmts exec body l res s = Some y"
    by (cases "execStmts exec body l res s") (auto simp: forTry_def)
  from execStmts_mono[OF assms(1) y] have y': "execStmts exec' body l res s = Some y" .
  obtain th r s1 where ys: "y = ((th, r), s1)" by (cases y) auto
  show ?thesis
  proof (cases th)
    case (Some sg)
    with assms(2) y y' ys show ?thesis by (auto simp: forTry_def)
  next
    case None
    with assms(2) y ys obtain z where z: "exec update c s1 = Some z"
      by (cases "exec update c s1") (auto simp: forTry_def)
    from exec_leD[OF assms(1) z] assms(2) y y' ys None z show ?thesis
      by (auto simp: forTry_def)
  qed
qed

lemma forLoop_mono:
  "exec_le exec exec' \<Longrightarrow> k \<le> k' \<Longrightarrow> forLoop k exec cond update body c res s = Some x
    \<Longrightarrow> forLoop k' exec' cond update body c res s = Some x"
proof (induction k arbitrary: k' res s)
  case 0 then show ?case by simp
next
  case (Suc k)
  from Suc.prems(2) obtain j where k': "k' = Suc j" and kj: "k \<le> j" by (cases k') auto
  from Suc.prems(3) obtain y where y: "exec cond c s = Some y" by (cases "exec cond c s") auto
  from exec_leD[OF Suc.prems(1) y] have y': "exec' cond c s = Some y" .
  obtain rc s1 where ys: "y = (rc, s1)" by (cases y)
  show ?case
  proof (cases "\<exists>v. rc = Inr v \<and> asBoolean v = Some True")
    case False
    with Suc.prems(3) y y' ys k' show ?thesis
      by (auto split: sum.splits option.splits if_splits)
  next
    case True
    let ?l = "fst (createChildContext c s1)"
    let ?s2 = "snd (createChildContext c s1)"
    from True Suc.prems(3) y ys obtain z where z: "forTry exec body update ?l c res ?s2 = Some z"
      by (cases "forTry exec body update ?l c res ?s2") (auto simp: case_prod_unfold)
    from forTry_mono[OF Suc.prems(1) z] have z': "forTry exec' body update ?l c res ?s2 = Some z" .
    obtain th r s4 where zs: "z = ((th, r), s4)" by (cases z) auto
    show ?thesis
    proof (cases "th = Some ContinueSignal")
      case False
      with True Suc.prems(3) y y' ys z z' zs k' Suc.IH[OF Suc.prems(1) kj] show ?thesis
        by (auto simp: case_prod_unfold split: option.splits signal.splits)
    next
      case c: True
      with True Suc.prems(3) y ys z zs obtain w where w: "exec update c s4 = Some w"
        by (cases "exec update c s4") (auto simp: case_prod_unfold)
      from exec_leD[OF Suc.prems(1) w] have w': "exec' update c s4 = Some w" .
      from c True Suc.prems(3) y y' ys z z' zs w w' k' Suc.IH[OF Suc.prems(1) kj] show ?thesis
        by (auto simp: case_prod_unfold split: sum.splits prod.splits)
    qed
  qed
qed

lemma doWhileLoop_mono:
  "exec_le exec exec' \<Longrightarrow> k \<le> k' \<Longrightarrow> doWhileLoop k exec body cond c res s = Some x
    \<Longrightarrow> doWhileLoop k' exec' body cond c res s = Some x"
proof (induction k arbitrary: k' res s)
  case 0 then show ?case by simp
next
  case (Suc k)
  from Suc.prems(2) obtain j where k': "k' = Suc j" and kj: "k \<le> j" by (cases k') auto
  let ?l = "fst (createChildContext c s)"
  let ?s1 = "snd (createChildContext c s)"
  from Suc.prems(3) obtain y where y: "execStmts exec body ?l res ?s1 = Some y"
    by (cases "execStmts exec body ?l res ?s1") (auto simp: case_prod_unfold Let_def)
  from execStmts_mono[OF Suc.prems(1) y] have y': "execStmts exec' body ?l res ?s1 = Some y" .
  obtain th r s2 where ys: "y = ((th, r), s2)" by (cases y) auto
  show ?case
  proof (cases "(th = None \<and> \<not> breakSignal (frames s2 (address ?l))) \<or> th = Some ContinueSignal")
    case False
    with Suc.prems(3) y y' ys k' show ?thesis
      by (auto simp: case_prod_unfold Let_def split: option.splits signal.splits if_splits)
  next
    case True
    with Suc.prems(3) y ys obtain w where w: "exec cond c s2 = Some w"
      by (cases "exec cond c s2") (auto simp: case_prod_unfold Let_def split: option.splits signal.splits)
    from exec_leD[OF Suc.prems(1) w] have w': "exec' cond c s2 = Some w" .
    from True Suc.prems(3) y y' ys w w' k' Suc.IH[OF Suc.prems(1) kj] show ?thesis
      by (auto simp: case_prod_unfold Let_def split: sum.splits prod.splits if_splits)
  qed
qed

lemma execNode_mono:
  assumes le: "exec_le exec exec'" and k: "k \<le> k'" and run: "execNode exec k nd c s = Some x"
  shows "execNode exec' k' nd c s = Some x"
proof -
  have one: "(case exec' e c s of None \<Rightarrow> None | Some y \<Rightarrow> F y) = Some x"
    if "(case exec e c s of None \<Rightarrow> None | Some y \<Rightarrow> F y) = Some x" for e F
  proof -
    from that obtain y where y: "exec e c s = Some y" by (cases "exec e c s") auto
    from exec_leD[OF le y] that y show ?thesis by simp
  qed
  have stmts: "(case execStmts exec' b l r t of None \<Rightarrow> None | Some y \<Rightarrow> F y) = Some x"
    if "(case execStmts exec b l r t of None \<Rightarrow> None | Some y \<Rightarrow> F y) = Some x" for b l r t F
  proof -
    from that obtain y where y: "execStmts exec b l r t = Some y"
      by (cases "execStmts exec b l r t") auto
    from execStmts_mono[OF le y] that y show ?thesis by simp
  qed
  show ?thesis
  proof (cases nd)
    case (VariableDeclarationNode varType nm e)
    with run one[where e=e] show ?thesis by (auto simp: case_prod_unfold split: if_splits)
  next
    case (AssignmentNode nm e)
    with run one[where e=e] show ?thesis by (simp add: case_prod_unfold)
  next
    case (ReturnNode e)
    with run one[where e=e] show ?thesis by (simp add: case_prod_unfold)
  next
    case BreakNode with run show ?thesis by simp
  next
    case ContinueNode with run show ?thesis by simp
  next
    case (ErrorNode e)
    with run one[where e=e] show ?thesis by (simp add: case_prod_unfold)
  next
    case (FunctionLiteralNode fname ps body dpt drt pure) with run show ?thesis by simp
  next
    case (ArrowFunctionNode ps body) with run show ?thesis by simp
  next
    case (FunctionCallNode fname args)
    from run FunctionCallNode have h: "\<not> hostDefinedLookup c fname s"
      by (auto split: if_splits)
    show ?thesis
    proof (cases "\<exists>f. getVariable c fname s = Inr (VFunction f)")
      case False
      with run FunctionCallNode show ?thesis by (auto split: sum.splits val.splits if_splits)
    next
      case True
      then obtain f where f: "getVariable c fname s = Inr (VFunction f)" ..
      with run FunctionCallNode h obtain y where y: "evalArgs exec args c s = Some y"
        by (cases "evalArgs exec args c s") auto
      from evalArgs_mono[OF le y] have y': "evalArgs exec' args c s = Some y" .
      obtain ra s1 where ys: "y = (ra, s1)" by (cases y)
      show ?thesis
      proof (cases ra)
        case (Inl sg)
        with run FunctionCallNode f y y' ys h show ?thesis by simp
      next
        case (Inr vs)
        with run FunctionCallNode f y ys h have "call exec f vs s1 = Some x" by simp
        from call_mono[OF le this] FunctionCallNode f y' ys Inr h show ?thesis by simp
      qed
    qed
  next
    case (LiteralNode v) with run show ?thesis by simp
  next
    case (VariableReferenceNode nm) with run show ?thesis by simp
  next
    case (BlockNode stmts)
    with run stmts[where b=stmts] show ?thesis by (simp add: case_prod_unfold Let_def)
  next
    case (IfNode cond thenB elseB)
    from run IfNode obtain y where y: "exec cond c s = Some y" by (cases "exec cond c s") auto
    from exec_leD[OF le y] have y': "exec' cond c s = Some y" .
    obtain rc s1 where ys: "y = (rc, s1)" by (cases y)
    show ?thesis
    proof (cases "\<exists>v b. rc = Inr v \<and> asBoolean v = Some b")
      case False
      with run IfNode y y' ys show ?thesis by (auto split: sum.splits option.splits)
    next
      case True
      then obtain v b where vb: "rc = Inr v" "asBoolean v = Some b" by blast
      let ?br = "if b then thenB else (case elseB of Some e \<Rightarrow> e | None \<Rightarrow> [])"
      from run IfNode y ys vb
        stmts[where b="?br" and l="fst (createChildContext c s1)" and r="VScalar PUndefined"
          and t="snd (createChildContext c s1)"] y'
      show ?thesis by (simp add: case_prod_unfold Let_def)
    qed
  next
    case (SignalNode sg) with run show ?thesis by simp
  next
    case (WhileNode cond body)
    with run whileLoop_mono[OF le k] show ?thesis by simp
  next
    case (ForNode init cond update body)
    from run ForNode obtain y where y: "exec init c s = Some y" by (cases "exec init c s") auto
    from exec_leD[OF le y] have y': "exec' init c s = Some y" .
    from run ForNode y y' forLoop_mono[OF le k] show ?thesis
      by (auto split: sum.splits prod.splits)
  next
    case (DoWhileNode body cond)
    with run doWhileLoop_mono[OF le k] show ?thesis by simp
  next
    case (TryCatchNode tryB cv catchB)
    let ?t = "fst (createChildContext c s)"
    let ?s1 = "snd (createChildContext c s)"
    from run TryCatchNode obtain y where y: "execStmts exec tryB ?t (VScalar PUndefined) ?s1 = Some y"
      by (cases "execStmts exec tryB ?t (VScalar PUndefined) ?s1")
        (auto simp: case_prod_unfold Let_def)
    from execStmts_mono[OF le y] have y': "execStmts exec' tryB ?t (VScalar PUndefined) ?s1 = Some y" .
    obtain th r s2 where ys: "y = ((th, r), s2)" by (cases y) auto
    show ?thesis
    proof (cases "\<exists>err. th = Some (Error err)")
      case False
      with run TryCatchNode y y' ys show ?thesis
        by (auto simp: case_prod_unfold Let_def split: option.splits signal.splits)
    next
      case True
      then obtain err where err: "th = Some (Error err)" ..
      let ?h = "fst (createChildContext c s2)"
      let ?s4 = "setVariable ?h cv (VError err) (snd (createChildContext c s2))"
      from run TryCatchNode y ys err
        stmts[where b=catchB and l="?h" and r="VScalar PUndefined" and t="?s4"] y'
      show ?thesis by (simp add: case_prod_unfold Let_def)
    qed
  qed
qed

lemma execute_le_Suc: "exec_le (execute n) (execute (Suc n))"
proof (induction n)
  case 0 show ?case by (simp add: exec_le_def)
next
  case (Suc n)
  show ?case unfolding exec_le_def
  proof (intro allI impI)
    fix nd c s r assume "execute (Suc n) nd c s = Some r"
    then have "execNode (execute n) n nd c s = Some r" by simp
    from execNode_mono[OF Suc _ this, of "Suc n"]
    show "execute (Suc (Suc n)) nd c s = Some r" by simp
  qed
qed

lemma execute_mono:
  "n \<le> m \<Longrightarrow> execute n nd c s = Some r \<Longrightarrow> execute m nd c s = Some r"
proof (induction m)
  case 0 then show ?case by simp
next
  case (Suc m)
  show ?case
  proof (cases "n = Suc m")
    case True with Suc.prems show ?thesis by simp
  next
    case False
    with Suc.prems have "n \<le> m" by simp
    from Suc.IH[OF this Suc.prems(2)] exec_leD[OF execute_le_Suc] show ?thesis by blast
  qed
qed

subsection \<open>Declarations, assignments and conditions, for every operand\<close>

text \<open>
  What \<^verbatim>\<open>VariableDeclarationNode\<close> does with a declared kind in each pass: the
  execution pass checks the value against \<^verbatim>\<open>typeChecks\<close>; the inference pass looks the
  kind up in \<^verbatim>\<open>typeMap\<close>, whose keys are none of the kinds of \<^verbatim>\<open>varTypes\<close>.
\<close>

lemma declaration_execute_number_string:
  assumes "exec e c s = Some (Inr v, s1)" and "typeof v = ''string''"
  shows "execNode exec k (VariableDeclarationNode ''number'' nm e) c s
           = Some (Inl (Error (VariableExpectedGot nm ''number'' ''string'')), s1)"
  using assms by (cases v) (auto simp: typeChecks_def got_def)

lemma typeMap_no_declared_kind:
  "varType \<in> set [''number'', ''string'', ''boolean'', ''null'', ''undefined'', ''bigint'',
      ''symbol'', ''void'', ''any'', ''function'', ''array'', ''object'']
   \<Longrightarrow> map_of (typeMap t) varType = None"
  unfolding typeMap_def by (simp only: set_simps) (elim insertE emptyE; simp)

lemma declaration_inferType_unsupported:
  assumes "inferType e env ts = (Inr t, ts1)" and "map_of (typeMap t) varType = None"
  shows "inferType (VariableDeclarationNode varType nm e) env ts
           = (Inl (UnsupportedVariableType varType), ts1)"
  using assms by simp

text \<open>
  \<^verbatim>\<open>AssignmentNode.execute\<close> never looks the name up (on a record that still inherits
  from \<^verbatim>\<open>Object.prototype\<close> or from \<^verbatim>\<open>null\<close> the assignment is not host-defined);
  \<^verbatim>\<open>inferType\<close> looks it up first.
\<close>

lemma assignment_execute_binds:
  "exec e c s = Some (Inr v, s1)
   \<Longrightarrow> prototype (frames s1 (address c)) = VObjectPrototype
       \<or> prototype (frames s1 (address c)) = VScalar PNull
   \<Longrightarrow> execNode exec k (AssignmentNode nm e) c s = Some (Inr v, setVariable c nm v s1)"
  by (simp add: writeVariable_plain)

lemma assignment_inferType_unbound:
  "getType env nm ts = Inl err \<Longrightarrow> inferType (AssignmentNode nm e) env ts = (Inl err, ts)"
  by simp

text \<open>
  A condition whose value is not a boolean: \<^verbatim>\<open>IfNode\<close>, \<^verbatim>\<open>WhileNode\<close> and \<^verbatim>\<open>ForNode\<close>
  throw at every evaluation of it; \<^verbatim>\<open>DoWhileNode\<close> goes by its truthiness.
\<close>

lemma condition_must_be_boolean:
  assumes "exec cond c s = Some (Inr v, s1)" and "asBoolean v = None"
  shows "execNode exec k (IfNode cond thenBranch elseBranch) c s
           = Some (Inl (Error ConditionMustBeBoolean), s1)"
    and "whileLoop (Suc k) exec cond body c result s
           = Some (Inl (Error ConditionMustBeBoolean), s1)"
    and "forLoop (Suc k) exec cond update body c result s
           = Some (Inl (Error ConditionMustBeBoolean), s1)"
  using assms by simp_all

lemma doWhile_condition_truthiness:
  assumes "createChildContext c s = (childCtx, s1)"
    and "execStmts exec body childCtx result s1 = Some ((None, r), s2)"
    and "\<not> breakSignal (frames s2 (address childCtx))"
    and "exec cond c s2 = Some (Inr v, s3)"
  shows "doWhileLoop (Suc k) exec body cond c result s =
           (if truthy v then doWhileLoop k exec body cond c r s3 else Some (Inr r, s3))"
  using assms by simp

text \<open>
  The body of a \<^verbatim>\<open>WhileNode\<close> runs on the context of the loop itself, that of a
  \<^verbatim>\<open>DoWhileNode\<close> on the child created for the turn.
\<close>

lemma while_body_context:
  assumes "exec cond c s = Some (Inr (VScalar (PBoolean True)), s1)"
    and "execStmts exec body c result (snd (createChildContext c s1)) = Some ((None, r), s3)"
    and "\<not> breakSignal (frames s3 (nextContext s1))"
  shows "whileLoop (Suc k) exec cond body c result s = whileLoop k exec cond body c r s3"
  using assms by (simp add: case_prod_unfold)

lemma doWhile_body_context:
  assumes "execStmts exec body (Context (nextContext s) (Some c)) result
             (snd (createChildContext c s)) = Some ((Some BreakSignal, r), s2)"
  shows "doWhileLoop (Suc k) exec body cond c result s = Some (Inr r, s2)"
  using assms by (simp add: case_prod_unfold)

text \<open>The root context of the examples is the one \<^verbatim>\<open>Interpreter.execute\<close> starts from.\<close>

lemma Interpreter_execute_root:
  "Interpreter_execute n [] (empty_state host0) = Some (Inr root, root_state)"
  by (simp add: Interpreter_execute_def root_def root_state_def case_prod_unfold Let_def)

text \<open>
  The contexts of a run are well formed: the root is, a child of a well-formed context
  is, and a context stays so whatever runs afterwards. The cache of a pure closure exists
  and is empty when \<^verbatim>\<open>toFunction\<close> returns.
\<close>

lemma wf_context_root: "wf_context root root_state"
  by (simp add: root_def root_state_def new_ExecutionContext_def Let_def)

lemma wf_context_grows:
  "wf_context p s \<Longrightarrow> nextContext s \<le> nextContext s' \<Longrightarrow> wf_context p s'"
proof (induction p)
  case (Context a par)
  then show ?case by (cases par) auto
qed

lemma wf_context_child:
  assumes "wf_context p s" and "createChildContext p s = (c, s')"
  shows "wf_context c s'" and "wf_context p s'"
proof -
  from assms(2) have c: "c = Context (nextContext s) (Some p)"
    and n: "nextContext s' = Suc (nextContext s)"
    by (rule createChildContext_props)+
  from assms(1) n show "wf_context p s'" by (auto intro: wf_context_grows)
  with c n wf_context_address[OF assms(1)] show "wf_context c s'" by simp
qed

lemma wf_context_execute:
  "wf_context p s \<Longrightarrow> execute n nd c s = Some (r, s') \<Longrightarrow> wf_context p s'"
  using execute_frame[of n nd c s r s'] by (auto simp: store_rel_def intro: wf_context_grows)

lemma toFunction_pure_cache:
  assumes "FunctionLiteral_toFunction params body True c s = (f, s')"
  shows "f = VFunction (FunctionClosure params body c (Some (nextCache s)))"
    and "nextCache s < nextCache s'" and "caches s' (nextCache s) = Map.empty"
  using assms by (auto simp: FunctionLiteral_toFunction_def)

subsection \<open>Evaluation of the examples\<close>

lemmas eval_defs =
  root_def root_state_def empty_state_def host0_def new_ExecutionContext_def
  createChildContext_def injectBuiltIns_def builtins_def setVariable_def writeVariable_def
  hostDefined_def inherited_def Object_prototype_names_def typeChecks_def got_def
  bindParams_def arg_at_def hostResult_def fn_def forTry_def
  FunctionLiteral_toFunction_def ArrowFunction_toFunction_def setBreakSignal_def
  setContinueSignal_def Let_def numeral_eq_Suc

section \<open>The claims\<close>

text \<open>
  Claim C1. Declaring a variable of kind \<^verbatim>\<open>number\<close> with a string-valued initializer
  fails with a Type Mismatch error in both passes, and neither pass binds the name.

  On \<^verbatim>\<open>new VariableDeclarationNode("number", "a", new LiteralNode("s"))\<close> the execution
  pass throws \<^verbatim>\<open>Variable 'a' expected number, got string\<close> and leaves the store as it
  was. The inference pass throws \<^verbatim>\<open>Unsupported variable type: number\<close>, and does so for
  a number-valued initializer as well: it never reaches its type comparison.
\<close>

theorem number_declaration_string_initializer:
  "execute 2 (VariableDeclarationNode ''number'' ''a'' (LiteralNode (PString ''s''))) c s
     = Some (Inl (Error (VariableExpectedGot ''a'' ''number'' ''string'')), s)
   \<and> inferType (VariableDeclarationNode ''number'' ''a'' (LiteralNode (PString ''s''))) env ts
     = (Inl (UnsupportedVariableType ''number''), ts)
   \<and> inferType (VariableDeclarationNode ''number'' ''a'' (LiteralNode (PNumber 1))) env ts
     = (Inl (UnsupportedVariableType ''number''), ts)"
  by (simp add: numeral_eq_Suc typeChecks_def got_def typeMap_def)

text \<open>
  Claim C2. On well-formed Type values \<^verbatim>\<open>compareTypes\<close> is reflexive and symmetric; it
  compares primitive tags by identity, function types by their parameter lists
  (position by position) and return types, array types by their element types, and
  object types by the number of keys and, for every key of the first, the type under the
  same key of the second. A primitive tag equals nothing but itself: \<^verbatim>\<open>"any"\<close> is equal
  to \<^verbatim>\<open>"any"\<close> alone, to no other tag (\<^verbatim>\<open>compareTypes("any", "number")\<close> is false) and
  to no function, array or object type, on either side. Types of different shapes are
  never equal.
\<close>

theorem compareTypes_structural_equality:
  assumes "wf_Type a" and "wf_Type b"
  shows "compareTypes a a
     \<and> compareTypes a b = compareTypes b a
     \<and> compareTypes (Prim x) (Prim y) = (x = y)
     \<and> compareTypes (T_function ps r) (T_function qs s)
         = (list_all2 compareTypes ps qs \<and> compareTypes r s)
     \<and> compareTypes (T_array e) (T_array f) = compareTypes e f
     \<and> compareTypes (T_object ms) (T_object ns)
         = (length ms = length ns
            \<and> (\<forall>(k, t) \<in> set ms. \<exists>u. map_of ns k = Some u \<and> compareTypes t u))
     \<and> \<not> compareTypes (Prim Tany) (Prim Tnumber)
     \<and> compareTypes (Prim Tany) c = (c = Prim Tany)
     \<and> compareTypes c (Prim Tany) = (c = Prim Tany)
     \<and> compareTypes (Prim x) c = (c = Prim x)
     \<and> compareTypes c (Prim x) = (c = Prim x)
     \<and> \<not> compareTypes (T_function ps r) (T_array f)
     \<and> \<not> compareTypes (T_function ps r) (T_object ns)
     \<and> \<not> compareTypes (T_array e) (T_function qs s)
     \<and> \<not> compareTypes (T_array e) (T_object ns)
     \<and> \<not> compareTypes (T_object ms) (T_function qs s)
     \<and> \<not> compareTypes (T_object ms) (T_array f)"
proof -
  have "compareTypes a b = compareTypes b a"
    using compareTypes_sym_imp[OF assms] compareTypes_sym_imp[OF assms(2,1)] by blast
  moreover have "compareTypes (T_function ps r) (T_function qs s)
         = (list_all2 compareTypes ps qs \<and> compareTypes r s)"
    by (auto simp: compareParams_all2 dest: list_all2_lengthD)
  moreover have "compareTypes (T_object ms) (T_object ns)
         = (length ms = length ns
            \<and> (\<forall>(k, t) \<in> set ms. \<exists>u. map_of ns k = Some u \<and> compareTypes t u))"
    by (simp add: compareProps_iff)
  ultimately show ?thesis using compareTypes_refl[OF assms(1)] compareTypes_Prim
    by simp
qed

text \<open>
  The two example object types, which list the same properties in different order, are
  well-formed and equal in both directions; an object type is not an array type;
  \<^verbatim>\<open>"any"\<close> equals \<^verbatim>\<open>"any"\<close> and neither \<^verbatim>\<open>"number"\<close> nor an object, array or
  function type.
\<close>

theorem compareTypes_structural_equality_witness:
  "wf_Type ex_type_a \<and> wf_Type ex_type_b
   \<and> compareTypes ex_type_a ex_type_a
   \<and> compareTypes ex_type_a ex_type_b \<and> compareTypes ex_type_b ex_type_a
   \<and> \<not> compareTypes ex_type_a (T_array (Prim Tany))
   \<and> \<not> compareTypes (Prim Tany) (Prim Tnumber)
   \<and> \<not> compareTypes (Prim Tany) ex_type_a
   \<and> \<not> compareTypes ex_type_a (Prim Tany)
   \<and> \<not> compareTypes (Prim Tany) (T_array (Prim Tany))
   \<and> \<not> compareTypes (Prim Tany) (T_function [Prim Tany] (Prim Tany))
   \<and> compareTypes (Prim Tany) (Prim Tany)"
proof -
  have wa: "wf_Type ex_type_a" and wb: "wf_Type ex_type_b"
    by (simp_all add: ex_type_a_def ex_type_b_def)
  have ab: "compareTypes ex_type_a ex_type_b" by (simp add: ex_type_a_def ex_type_b_def)
  note t = compareTypes_structural_equality[OF wa wb]
  have 1: "compareTypes ex_type_a ex_type_a" using t by blast
  have 2: "compareTypes ex_type_b ex_type_a" using t ab by blast
  have 3: "\<not> compareTypes ex_type_a (T_array (Prim Tany))"
    using t[where ms="[(''id'', Prim Tnumber),
               (''f'', T_function [Prim Tany] (T_array (Prim Tstring)))]" and f="Prim Tany"]
    unfolding ex_type_a_def by blast
  have 4: "\<not> compareTypes (Prim Tany) (Prim Tnumber)" using t by blast
  have 5: "\<not> compareTypes (Prim Tany) ex_type_a \<and> \<not> compareTypes ex_type_a (Prim Tany)"
    using t[where c=ex_type_a] by (simp add: ex_type_a_def)
  have 6: "\<not> compareTypes (Prim Tany) (T_array (Prim Tany))"
    using t[where c="T_array (Prim Tany)"] by simp
  have 7: "\<not> compareTypes (Prim Tany) (T_function [Prim Tany] (Prim Tany))"
    using t[where c="T_function [Prim Tany] (Prim Tany)"] by simp
  have 8: "compareTypes (Prim Tany) (Prim Tany)"
    using t[where c="Prim Tany"] by simp
  from wa wb ab 1 2 3 4 5 6 7 8 show ?thesis by blast
qed




text \<open>
  Claim C4. In a turn of a While loop whose condition is true, a BreakSignal raised by the
  body ends the loop normally in the store of the break, with no further turn; a
  ContinueSignal goes on with the next turn; a ReturnSignal or an Error leaves the loop as
  it is. The statements after the one that raised are not run. A TryCatch node whose try
  block raises an Error binds it to the catch variable in a fresh child context and runs
  the catch block there; a ReturnSignal, BreakSignal or ContinueSignal leaves the node
  unchanged. Over all turns: a BreakSignal or ContinueSignal that leaves a While loop was
  raised by an evaluation of its condition, never by its body; an Error that leaves a
  TryCatch node was raised by its catch block.
\<close>

theorem control_signal_absorption:
  "(exec cond c s = Some (Inr (VScalar (PBoolean True)), s1)
      \<and> createChildContext c s1 = (loopCtx, s2)
      \<and> execStmts exec body c result s2 = Some ((Some sg, r), s3)
    \<longrightarrow> whileLoop (Suc k) exec cond body c result s =
          (case sg of
             BreakSignal \<Rightarrow> Some (Inr r, s3)
           | ContinueSignal \<Rightarrow> whileLoop k exec cond body c r s3
           | ReturnSignal v \<Rightarrow> Some (Inl (ReturnSignal v), s3)
           | Error e \<Rightarrow> Some (Inl (Error e), s3)))
   \<and> (exec stmt c t = Some (Inl sg, t1)
    \<longrightarrow> execStmts exec (stmt # rest) c result t = Some ((Some sg, result), t1))
   \<and> (createChildContext c u = (tryCtx, u1)
      \<and> execStmts exec tryBlock tryCtx (VScalar PUndefined) u1 = Some ((Some tsg, tr), u2)
      \<and> createChildContext c u2 = (catchCtx, u3)
    \<longrightarrow> execNode exec j (TryCatchNode tryBlock catchVar catchBlock) c u =
          (case tsg of
             Error e \<Rightarrow>
               (case execStmts exec catchBlock catchCtx (VScalar PUndefined)
                       (setVariable catchCtx catchVar (VError e) u3) of
                  None \<Rightarrow> None
                | Some ((Some sg', r'), u5) \<Rightarrow> Some (Inl sg', u5)
                | Some ((None, r'), u5) \<Rightarrow> Some (Inr r', u5))
           | _ \<Rightarrow> Some (Inl tsg, u2))
        \<and> (\<forall>e. getVariable catchCtx catchVar (setVariable catchCtx catchVar (VError e) u3)
              = Inr (VError e)))
   \<and> (whileLoop n exec wcond wbody c wres w = Some (Inl wsg, w')
        \<and> (wsg = BreakSignal \<or> wsg = ContinueSignal)
    \<longrightarrow> (\<exists>t. exec wcond c t = Some (Inl wsg, w')))
   \<and> (execNode exec j (TryCatchNode tryBlock' catchVar' catchBlock') c x = Some (Inl (Error err), x')
    \<longrightarrow> (\<exists>ctx st r. execStmts exec catchBlock' ctx (VScalar PUndefined) st
                    = Some ((Some (Error err), r), x')))"
proof (intro conjI impI allI)
  assume "exec cond c s = Some (Inr (VScalar (PBoolean True)), s1)
      \<and> createChildContext c s1 = (loopCtx, s2)
      \<and> execStmts exec body c result s2 = Some ((Some sg, r), s3)"
  then show "whileLoop (Suc k) exec cond body c result s =
          (case sg of
             BreakSignal \<Rightarrow> Some (Inr r, s3)
           | ContinueSignal \<Rightarrow> whileLoop k exec cond body c r s3
           | ReturnSignal v \<Rightarrow> Some (Inl (ReturnSignal v), s3)
           | Error e \<Rightarrow> Some (Inl (Error e), s3))"
    by (cases sg) simp_all
next
  assume "exec stmt c t = Some (Inl sg, t1)"
  then show "execStmts exec (stmt # rest) c result t = Some ((Some sg, result), t1)" by simp
next
  assume "createChildContext c u = (tryCtx, u1)
      \<and> execStmts exec tryBlock tryCtx (VScalar PUndefined) u1 = Some ((Some tsg, tr), u2)
      \<and> createChildContext c u2 = (catchCtx, u3)"
  then show "execNode exec j (TryCatchNode tryBlock catchVar catchBlock) c u =
          (case tsg of
             Error e \<Rightarrow>
               (case execStmts exec catchBlock catchCtx (VScalar PUndefined)
                       (setVariable catchCtx catchVar (VError e) u3) of
                  None \<Rightarrow> None
                | Some ((Some sg', r'), u5) \<Rightarrow> Some (Inl sg', u5)
                | Some ((None, r'), u5) \<Rightarrow> Some (Inr r', u5))
           | _ \<Rightarrow> Some (Inl tsg, u2))"
    by (cases tsg) (simp_all add: Let_def)
next
  fix e
  assume "createChildContext c u = (tryCtx, u1)
      \<and> execStmts exec tryBlock tryCtx (VScalar PUndefined) u1 = Some ((Some tsg, tr), u2)
      \<and> createChildContext c u2 = (catchCtx, u3)"
  then have "createChildContext c u2 = (catchCtx, u3)" by simp
  then show "getVariable catchCtx catchVar (setVariable catchCtx catchVar (VError e) u3)
      = Inr (VError e)"
    by (rule catch_variable_bound)
next
  assume "whileLoop n exec wcond wbody c wres w = Some (Inl wsg, w')
        \<and> (wsg = BreakSignal \<or> wsg = ContinueSignal)"
  then show "\<exists>t. exec wcond c t = Some (Inl wsg, w')"
    using whileLoop_absorbs by blast
next
  assume "execNode exec j (TryCatchNode tryBlock' catchVar' catchBlock') c x
            = Some (Inl (Error err), x')"
  then show "\<exists>ctx st r. execStmts exec catchBlock' ctx (VScalar PUndefined) st
                    = Some ((Some (Error err), r), x')"
    by (rule tryCatch_absorbs)
qed

text \<open>
  \<^verbatim>\<open>while (true) { print("a"); break; print("b") }\<close> ends normally with \<^verbatim>\<open>a\<close> alone on
  the console; \<^verbatim>\<open>try { error("boom") } catch (e) { e }\<close> yields the error object. A
  loop whose condition is a \<^verbatim>\<open>BreakNode\<close> lets that signal out, and a catch block
  that raises lets its error out.
\<close>

theorem control_signal_absorption_witness:
  "execute 4 (WhileNode ex_true ex_loop_body) root root_state
     = Some (Inr (VScalar PUndefined), ex_loop_end)
   \<and> console ex_loop_end = [[VScalar (PString ''a'')]]
   \<and> execStmts (execute 3) (BreakNode # [ex_true]) root (VScalar PUndefined) root_state
     = Some ((Some BreakSignal, VScalar PUndefined), root_state)
   \<and> execute 4
        (TryCatchNode [ErrorNode (LiteralNode (PString ''boom''))] ''e''
           [VariableReferenceNode ''e'']) root root_state
     = Some (Inr (VError ex_boom),
             setVariable (Context 2 (Some root)) ''e'' (VError ex_boom)
               (snd (createChildContext root (snd (createChildContext root root_state)))))
   \<and> execute 4 (WhileNode BreakNode []) root root_state = Some (Inl BreakSignal, root_state)
   \<and> (\<exists>t. execute 3 BreakNode root t = Some (Inl BreakSignal, root_state))
   \<and> execute 4
        (TryCatchNode [ErrorNode (LiteralNode (PString ''boom''))] ''e''
           [ErrorNode (VariableReferenceNode ''e'')]) root root_state
     = Some (Inl (Error (UserError (VError ex_boom))),
             setVariable (Context 2 (Some root)) ''e'' (VError ex_boom)
               (snd (createChildContext root (snd (createChildContext root root_state)))))
   \<and> (\<exists>ctx st r.
         execStmts (execute 3) [ErrorNode (VariableReferenceNode ''e'')] ctx (VScalar PUndefined) st
           = Some ((Some (Error (UserError (VError ex_boom))), r),
                   setVariable (Context 2 (Some root)) ''e'' (VError ex_boom)
                     (snd (createChildContext root (snd (createChildContext root root_state))))))"
proof -
  have h7: "whileLoop 3 (execute 3) BreakNode [] root (VScalar PUndefined) root_state
      = Some (Inl BreakSignal, root_state)"
    by (simp add: numeral_eq_Suc)
  have h8: "execNode (execute 3) 3
        (TryCatchNode [ErrorNode (LiteralNode (PString ''boom''))] ''e''
           [ErrorNode (VariableReferenceNode ''e'')]) root root_state
     = Some (Inl (Error (UserError (VError ex_boom))),
             setVariable (Context 2 (Some root)) ''e'' (VError ex_boom)
               (snd (createChildContext root (snd (createChildContext root root_state)))))"
    by (simp add: eval_defs ex_boom_def)
  have h1: "execute 3 ex_true root root_state = Some (Inr (VScalar (PBoolean True)), root_state)"
    by (simp add: ex_true_def numeral_eq_Suc)
  have h2: "createChildContext root root_state
      = (Context 1 (Some root), snd (createChildContext root root_state))"
    by (simp add: eval_defs)
  have h3: "execStmts (execute 3) ex_loop_body root (VScalar PUndefined)
       (snd (createChildContext root root_state))
      = Some ((Some BreakSignal, VScalar PUndefined), ex_loop_end)"
    by (simp add: eval_defs ex_loop_body_def ex_loop_end_def)
  have h4: "execute 3 BreakNode root root_state = Some (Inl BreakSignal, root_state)"
    by (simp add: numeral_eq_Suc)
  have h5: "execStmts (execute 3) [ErrorNode (LiteralNode (PString ''boom''))]
        (Context 1 (Some root)) (VScalar PUndefined)
        (snd (createChildContext root root_state))
      = Some ((Some (Error ex_boom), VScalar PUndefined), snd (createChildContext root root_state))"
    by (simp add: numeral_eq_Suc ex_boom_def)
  have h6: "createChildContext root (snd (createChildContext root root_state))
      = (Context 2 (Some root), snd (createChildContext root (snd (createChildContext root root_state))))"
    by (simp add: eval_defs)
  have c: "console ex_loop_end = [[VScalar (PString ''a'')]]"
    by (simp add: eval_defs ex_loop_body_def ex_loop_end_def)
  note t = control_signal_absorption[where exec="execute 3" and cond=ex_true and c=root
      and s=root_state and ?s1.0=root_state and loopCtx="Context 1 (Some root)"
      and ?s2.0="snd (createChildContext root root_state)" and body=ex_loop_body
      and result="VScalar PUndefined" and sg=BreakSignal and r="VScalar PUndefined"
      and ?s3.0=ex_loop_end and k=2 and j=3 and stmt=BreakNode and t=root_state and ?t1.0=root_state
      and rest="[ex_true]" and u=root_state
      and tryCtx="Context 1 (Some root)"
      and ?u1.0="snd (createChildContext root root_state)"
      and tryBlock="[ErrorNode (LiteralNode (PString ''boom''))]"
      and tsg="Error ex_boom" and tr="VScalar PUndefined"
      and ?u2.0="snd (createChildContext root root_state)"
      and catchCtx="Context 2 (Some root)"
      and ?u3.0="snd (createChildContext root (snd (createChildContext root root_state)))"
      and catchVar="''e''" and catchBlock="[VariableReferenceNode ''e'']"
      and n=3 and wcond=BreakNode and wbody="[]" and wres="VScalar PUndefined"
      and w=root_state and wsg=BreakSignal and w'=root_state
      and tryBlock'="[ErrorNode (LiteralNode (PString ''boom''))]" and catchVar'="''e''"
      and catchBlock'="[ErrorNode (VariableReferenceNode ''e'')]" and x=root_state
      and err="UserError (VError ex_boom)"
      and x'="setVariable (Context 2 (Some root)) ''e'' (VError ex_boom)
               (snd (createChildContext root (snd (createChildContext root root_state))))"]
  from t[THEN conjunct2, THEN conjunct2, THEN conjunct2, THEN conjunct1] h7
  have a1: "\<exists>t. execute 3 BreakNode root t = Some (Inl BreakSignal, root_state)"
    by blast
  from t[THEN conjunct2, THEN conjunct2, THEN conjunct2, THEN conjunct2] h8
  have a2: "\<exists>ctx st r.
         execStmts (execute 3) [ErrorNode (VariableReferenceNode ''e'')] ctx (VScalar PUndefined) st
           = Some ((Some (Error (UserError (VError ex_boom))), r),
                   setVariable (Context 2 (Some root)) ''e'' (VError ex_boom)
                     (snd (createChildContext root (snd (createChildContext root root_state)))))"
    by blast
  have e7: "execute 4 (WhileNode BreakNode []) root root_state = Some (Inl BreakSignal, root_state)"
    using h7 by (simp add: numeral_eq_Suc)
  have e8: "execute 4
        (TryCatchNode [ErrorNode (LiteralNode (PString ''boom''))] ''e''
           [ErrorNode (VariableReferenceNode ''e'')]) root root_state
     = Some (Inl (Error (UserError (VError ex_boom))),
             setVariable (Context 2 (Some root)) ''e'' (VError ex_boom)
               (snd (createChildContext root (snd (createChildContext root root_state)))))"
    using h8 by (simp add: numeral_eq_Suc)
  have w: "whileLoop (Suc 2) (execute 3) ex_true ex_loop_body root (VScalar PUndefined) root_state
      = Some (Inr (VScalar PUndefined), ex_loop_end)"
    using t[THEN conjunct1] h1 h2 h3 by simp
  have e1: "execute 4 (WhileNode ex_true ex_loop_body) root root_state
     = Some (Inr (VScalar PUndefined), ex_loop_end)"
  proof -
    have "execute 4 (WhileNode ex_true ex_loop_body) root root_state
        = whileLoop (Suc 2) (execute 3) ex_true ex_loop_body root (VScalar PUndefined) root_state"
      by (simp add: eval_nat_numeral)
    with w show ?thesis by simp
  qed
  have e3: "execStmts (execute 3) (BreakNode # [ex_true]) root (VScalar PUndefined) root_state
     = Some ((Some BreakSignal, VScalar PUndefined), root_state)"
    using t[THEN conjunct2, THEN conjunct1] h4 by blast
  have tc: "execNode (execute 3) 3
        (TryCatchNode [ErrorNode (LiteralNode (PString ''boom''))] ''e''
           [VariableReferenceNode ''e'']) root root_state
      = (case execStmts (execute 3) [VariableReferenceNode ''e''] (Context 2 (Some root))
               (VScalar PUndefined)
               (setVariable (Context 2 (Some root)) ''e'' (VError ex_boom)
                  (snd (createChildContext root (snd (createChildContext root root_state))))) of
           None \<Rightarrow> None
         | Some ((Some sg', r'), u5) \<Rightarrow> Some (Inl sg', u5)
         | Some ((None, r'), u5) \<Rightarrow> Some (Inr r', u5))"
    using t[THEN conjunct2, THEN conjunct2, THEN conjunct1] h2 h5 h6 by simp
  have bound: "getVariable (Context 2 (Some root)) ''e''
        (setVariable (Context 2 (Some root)) ''e'' (VError ex_boom)
           (snd (createChildContext root (snd (createChildContext root root_state)))))
      = Inr (VError ex_boom)"
    using t[THEN conjunct2, THEN conjunct2, THEN conjunct1] h2 h5 h6 by blast
  have nh: "\<not> hostDefinedLookup (Context 2 (Some root)) ''e''
        (setVariable (Context 2 (Some root)) ''e'' (VError ex_boom)
           (snd (createChildContext root (snd (createChildContext root root_state)))))"
    by (simp add: setVariable_def Let_def)
  have e4: "execute 4
        (TryCatchNode [ErrorNode (LiteralNode (PString ''boom''))] ''e''
           [VariableReferenceNode ''e'']) root root_state
     = Some (Inr (VError ex_boom),
             setVariable (Context 2 (Some root)) ''e'' (VError ex_boom)
               (snd (createChildContext root (snd (createChildContext root root_state)))))"
  proof -
    have "execute 4
        (TryCatchNode [ErrorNode (LiteralNode (PString ''boom''))] ''e''
           [VariableReferenceNode ''e'']) root root_state
        = execNode (execute 3) 3
        (TryCatchNode [ErrorNode (LiteralNode (PString ''boom''))] ''e''
           [VariableReferenceNode ''e'']) root root_state"
      by (simp add: eval_nat_numeral)
    moreover have "execStmts (execute 3) [VariableReferenceNode ''e''] (Context 2 (Some root))
               (VScalar PUndefined)
               (setVariable (Context 2 (Some root)) ''e'' (VError ex_boom)
                  (snd (createChildContext root (snd (createChildContext root root_state)))))
        = Some ((None, VError ex_boom),
               setVariable (Context 2 (Some root)) ''e'' (VError ex_boom)
                  (snd (createChildContext root (snd (createChildContext root root_state)))))"
      using bound nh by (simp add: eval_nat_numeral)
    ultimately show ?thesis using tc by simp
  qed
  have main: "execute 4 (WhileNode ex_true ex_loop_body) root root_state
     = Some (Inr (VScalar PUndefined), ex_loop_end)
   \<and> console ex_loop_end = [[VScalar (PString ''a'')]]
   \<and> execStmts (execute 3) (BreakNode # [ex_true]) root (VScalar PUndefined) root_state
     = Some ((Some BreakSignal, VScalar PUndefined), root_state)
   \<and> execute 4
        (TryCatchNode [ErrorNode (LiteralNode (PString ''boom''))] ''e''
           [VariableReferenceNode ''e'']) root root_state
     = Some (Inr (VError ex_boom),
             setVariable (Context 2 (Some root)) ''e'' (VError ex_boom)
               (snd (createChildContext root (snd (createChildContext root root_state)))))"
    using e1 c e3 e4 by simp
  from main e7 a1 e8 a2 show ?thesis by blast
qed

text \<open>
  Claim C5. An assignment executed inside a child scope to a name bound in a parent frame
  writes into the child's frame, so that the parent's visible binding is unchanged when
  the child scope ends.

  With \<^verbatim>\<open>x = 1\<close> and \<^verbatim>\<open>go = true\<close> in the root frame,
  \<^verbatim>\<open>while (go) { x = 2; go = false }\<close> run on the root context leaves \<^verbatim>\<open>x = 2\<close> in the
  root frame: the body of a While loop is executed on the context of the loop (line 1074),
  and the child context created for the turn (address 1) receives nothing. The same
  assignment in a Block, in the body of a DoWhile loop and in the body of a For loop goes
  to the child frame and leaves \<^verbatim>\<open>x = 1\<close> in the root.
\<close>

theorem assignment_in_while_body_alters_enclosing_binding:
  "getVariable root ''x'' ex_enclosing_state = Inr (VScalar (PNumber 1))
   \<and> (case execute 4 (WhileNode (VariableReferenceNode ''go'') ex_assign_body) root
              ex_enclosing_state of
        Some (Inr v, s') \<Rightarrow>
          getVariable root ''x'' s' = Inr (VScalar (PNumber 2))
          \<and> nextContext s' = 2
          \<and> variables (frames s' 1) ''x'' = None
      | _ \<Rightarrow> False)
   \<and> (case execute 4 (BlockNode [ex_assign]) root ex_enclosing_state of
        Some (Inr v, s') \<Rightarrow>
          getVariable root ''x'' s' = Inr (VScalar (PNumber 1))
          \<and> variables (frames s' 1) ''x'' = Some (VScalar (PNumber 2))
      | _ \<Rightarrow> False)
   \<and> (case execute 4 (DoWhileNode [ex_assign] (LiteralNode (PBoolean False))) root
              ex_enclosing_state of
        Some (Inr v, s') \<Rightarrow>
          getVariable root ''x'' s' = Inr (VScalar (PNumber 1))
          \<and> variables (frames s' 1) ''x'' = Some (VScalar (PNumber 2))
      | _ \<Rightarrow> False)
   \<and> (case execute 4
              (ForNode (LiteralNode PNull) (VariableReferenceNode ''go'')
                 (AssignmentNode ''go'' (LiteralNode (PBoolean False))) [ex_assign]) root
              ex_enclosing_state of
        Some (Inr v, s') \<Rightarrow>
          getVariable root ''x'' s' = Inr (VScalar (PNumber 1))
          \<and> variables (frames s' 1) ''x'' = Some (VScalar (PNumber 2))
      | _ \<Rightarrow> False)"
  by (simp add: eval_defs ex_enclosing_state_def ex_assign_body_def ex_assign_def)

text \<open>
  Claim C6. A While loop runs its body in a fresh child scope per turn, so that a
  declaration in the body does not create a binding in the frame of the enclosing
  context.

  On the example loop, run on the root context, the declaration of \<^verbatim>\<open>x\<close> in the body
  lands in the root frame (address 0); the context created for the turn (address 1)
  never receives it.
\<close>

theorem while_body_runs_in_enclosing_frame:
  "variables (frames ex_while_state (address root)) ''x'' = None
   \<and> (case execute 4 ex_while root ex_while_state of
        Some (Inr v, s') \<Rightarrow>
          variables (frames s' (address root)) ''x'' = Some (VScalar (PString ''inner''))
          \<and> nextContext s' = 2
          \<and> variables (frames s' 1) ''x'' = None
      | _ \<Rightarrow> False)"
  by (simp add: eval_defs ex_while_def ex_while_state_def)

text \<open>
  Claim C7. If, While, For and DoWhile raise an error whenever their condition evaluates
  to a value that is not a boolean.

  With the condition 0, \<^verbatim>\<open>IfNode\<close>, \<^verbatim>\<open>WhileNode\<close> and \<^verbatim>\<open>ForNode\<close> throw
  \<^verbatim>\<open>Condition must be boolean\<close>; \<^verbatim>\<open>DoWhileNode\<close> takes 0 as false and returns normally.
\<close>

theorem doWhile_condition_not_checked:
  "execute 2 (DoWhileNode [] (LiteralNode (PNumber 0))) c s
     = Some (Inr (VScalar PUndefined), snd (createChildContext c s))
   \<and> execute 2 (IfNode (LiteralNode (PNumber 0)) [] None) c s
     = Some (Inl (Error ConditionMustBeBoolean), s)
   \<and> execute 2 (WhileNode (LiteralNode (PNumber 0)) []) c s
     = Some (Inl (Error ConditionMustBeBoolean), s)
   \<and> execute 2 (ForNode (LiteralNode PNull) (LiteralNode (PNumber 0)) (LiteralNode PNull) []) c s
     = Some (Inl (Error ConditionMustBeBoolean), s)"
  by (simp add: numeral_eq_Suc case_prod_unfold createChildContext_def new_ExecutionContext_def
      injectBuiltIns_def builtins_def setVariable_def Let_def)

text \<open>
  Claim C8. An assignment requires its name to be bound already, in the type environment
  during inference and in the execution context during execution.

  On a fresh root context, where \<^verbatim>\<open>x\<close> is unbound, executing \<^verbatim>\<open>x = 1\<close> returns 1 and
  creates the binding; inferring its type on an empty environment throws
  \<^verbatim>\<open>Undefined variable (type): x\<close>.
\<close>

theorem assignment_to_unbound_name:
  "getVariable root ''x'' root_state = Inl (UndefinedVariable ''x'')
   \<and> execute 2 (AssignmentNode ''x'' (LiteralNode (PNumber 1))) root root_state
       = Some (Inr (VScalar (PNumber 1)), setVariable root ''x'' (VScalar (PNumber 1)) root_state)
   \<and> getVariable root ''x'' (setVariable root ''x'' (VScalar (PNumber 1)) root_state)
       = Inr (VScalar (PNumber 1))
   \<and> inferType (AssignmentNode ''x'' (LiteralNode (PNumber 1))) (TEnv 0 None) empty_tstate
       = (Inl (UndefinedVariableType ''x''), empty_tstate)"
  by (simp add: eval_defs empty_tstate_def)




text \<open>
  Claim C10. The constructor gives every context, the root and every child, own bindings
  of the ten built-ins \<^verbatim>\<open>print\<close>, \<^verbatim>\<open>typeOf\<close>, \<^verbatim>\<open>now\<close>, \<^verbatim>\<open>random\<close>, \<^verbatim>\<open>isNaN\<close>,
  \<^verbatim>\<open>abs\<close>, \<^verbatim>\<open>sqrt\<close>, \<^verbatim>\<open>floor\<close>, \<^verbatim>\<open>ceil\<close> and \<^verbatim>\<open>fetch\<close> in its own record, each
  a function of that context, and the new context resolves each of these names to its own
  built-in whatever its ancestors bind. In any store, a frame whose own binding of a
  built-in name is the injected one resolves the name to it. That binding stays: a run on
  another context changes nothing in the frame, and a run on the context itself changes
  the own binding of no name that it does not assign there.
\<close>

theorem every_frame_injects_builtins:
  "(new_ExecutionContext p s = (c, s') \<longrightarrow>
      c = Context (nextContext s) p
      \<and> map (variables (frames s' (address c)))
            [''print'', ''typeOf'', ''now'', ''random'', ''isNaN'', ''abs'', ''sqrt'', ''floor'',
             ''ceil'', ''fetch'']
          = map (\<lambda>b. Some (VFunction (BuiltIn b (address c))))
              [B_print, B_typeOf, B_now, B_random, B_isNaN, B_abs, B_sqrt, B_floor, B_ceil,
               B_fetch]
      \<and> (\<forall>b. variables (frames s' (address c)) (builtin_name b)
                 = Some (VFunction (BuiltIn b (address c))))
      \<and> (\<forall>b. getVariable c (builtin_name b) s' = Inr (VFunction (BuiltIn b (address c)))))
   \<and> (createChildContext q u = (c', u') \<longrightarrow>
      c' = Context (nextContext u) (Some q)
      \<and> map (variables (frames u' (address c')))
            [''print'', ''typeOf'', ''now'', ''random'', ''isNaN'', ''abs'', ''sqrt'', ''floor'',
             ''ceil'', ''fetch'']
          = map (\<lambda>b. Some (VFunction (BuiltIn b (address c'))))
              [B_print, B_typeOf, B_now, B_random, B_isNaN, B_abs, B_sqrt, B_floor, B_ceil,
               B_fetch]
      \<and> (\<forall>b. variables (frames u' (address c')) (builtin_name b)
                 = Some (VFunction (BuiltIn b (address c'))))
      \<and> (\<forall>b. getVariable c' (builtin_name b) u' = Inr (VFunction (BuiltIn b (address c')))))
   \<and> (variables (frames t (address d)) (builtin_name b) = Some (VFunction (BuiltIn b (address d)))
      \<longrightarrow> getVariable d (builtin_name b) t = Inr (VFunction (BuiltIn b (address d))))
   \<and> (execute n nd x v = Some (r, v') \<and> address e < nextContext v \<and> address x \<noteq> address e
      \<longrightarrow> frames v' (address e) = frames v (address e))
   \<and> (execute m md y w = Some (r', w') \<and> address y < nextContext w \<and> nm \<notin> assigned md
      \<longrightarrow> variables (frames w' (address y)) nm = variables (frames w (address y)) nm)"
proof -
  have names: "map (variables f) [''print'', ''typeOf'', ''now'', ''random'', ''isNaN'', ''abs'',
        ''sqrt'', ''floor'', ''ceil'', ''fetch'']
      = map (\<lambda>b. Some (VFunction (BuiltIn b a)))
          [B_print, B_typeOf, B_now, B_random, B_isNaN, B_abs, B_sqrt, B_floor, B_ceil, B_fetch]"
    if "\<And>b. variables f (builtin_name b) = Some (VFunction (BuiltIn b a))" for f a
    using that[of B_print] that[of B_typeOf] that[of B_now] that[of B_random] that[of B_isNaN]
      that[of B_abs] that[of B_sqrt] that[of B_floor] that[of B_ceil] that[of B_fetch]
    by simp
  have new: "c = Context (nextContext s) p
      \<and> map (variables (frames s' (address c)))
            [''print'', ''typeOf'', ''now'', ''random'', ''isNaN'', ''abs'', ''sqrt'', ''floor'',
             ''ceil'', ''fetch'']
          = map (\<lambda>b. Some (VFunction (BuiltIn b (address c))))
              [B_print, B_typeOf, B_now, B_random, B_isNaN, B_abs, B_sqrt, B_floor, B_ceil,
               B_fetch]
      \<and> (\<forall>b. variables (frames s' (address c)) (builtin_name b)
                 = Some (VFunction (BuiltIn b (address c))))
      \<and> (\<forall>b. getVariable c (builtin_name b) s' = Inr (VFunction (BuiltIn b (address c))))"
    if mk: "new_ExecutionContext p s = (c, s')" for p s c s'
  proof -
    note own = new_ExecutionContext_frame(2)[OF mk]
    from names[of "frames s' (address c)" "address c"] own
      new_ExecutionContext_frame(1)[OF mk] getVariable_own[of s' c]
    show ?thesis by blast
  qed
  have look: "getVariable d (builtin_name b) t = Inr (VFunction (BuiltIn b (address d)))"
    if "variables (frames t (address d)) (builtin_name b) = Some (VFunction (BuiltIn b (address d)))"
    using that by (rule getVariable_own)
  have other: "frames v' (address e) = frames v (address e)"
    if "execute n nd x v = Some (r, v') \<and> address e < nextContext v \<and> address x \<noteq> address e"
    using that execute_frame[of n nd x v r v'] by (auto simp: store_rel_def)
  have same: "variables (frames w' (address y)) nm = variables (frames w (address y)) nm"
    if "execute m md y w = Some (r', w') \<and> address y < nextContext w \<and> nm \<notin> assigned md"
    using that execute_keeps by blast
  from new[of p s c s'] new[of "Some q" u c' u'] look other same
  show ?thesis unfolding createChildContext_def by blast
qed

text \<open>
  The root context resolves the ten names to its own built-ins. When the root rebinds
  \<^verbatim>\<open>print\<close> to 5, before or after a child is created, the child still resolves the ten
  names, \<^verbatim>\<open>print\<close> among them, to the built-ins of the child; so it does after
  \<^verbatim>\<open>x = 2\<close> has run on the child itself.
\<close>

theorem every_frame_injects_builtins_witness:
  "new_ExecutionContext None (empty_state host0) = (root, root_state)
   \<and> map (\<lambda>nm. getVariable root nm root_state)
         [''print'', ''typeOf'', ''now'', ''random'', ''isNaN'', ''abs'', ''sqrt'', ''floor'',
          ''ceil'', ''fetch'']
       = map (\<lambda>b. Inr (VFunction (BuiltIn b 0)))
           [B_print, B_typeOf, B_now, B_random, B_isNaN, B_abs, B_sqrt, B_floor, B_ceil, B_fetch]
   \<and> getVariable root ''print'' ex_shadow_state = Inr (VScalar (PNumber 5))
   \<and> createChildContext root ex_shadow_state
        = (Context 1 (Some root), snd (createChildContext root ex_shadow_state))
   \<and> map (\<lambda>nm. getVariable (Context 1 (Some root)) nm (snd (createChildContext root ex_shadow_state)))
         [''print'', ''typeOf'', ''now'', ''random'', ''isNaN'', ''abs'', ''sqrt'', ''floor'',
          ''ceil'', ''fetch'']
       = map (\<lambda>b. Inr (VFunction (BuiltIn b 1)))
           [B_print, B_typeOf, B_now, B_random, B_isNaN, B_abs, B_sqrt, B_floor, B_ceil, B_fetch]
   \<and> execute 2 (VariableDeclarationNode ''number'' ''print'' (LiteralNode (PNumber 5))) root
          (snd (createChildContext root root_state))
        = Some (Inr (VScalar (PNumber 5)),
                setVariable root ''print'' (VScalar (PNumber 5))
                  (snd (createChildContext root root_state)))
   \<and> getVariable (Context 1 (Some root)) ''print''
          (setVariable root ''print'' (VScalar (PNumber 5))
             (snd (createChildContext root root_state)))
        = Inr (VFunction (BuiltIn B_print 1))
   \<and> execute 2 ex_assign (Context 1 (Some root)) (snd (createChildContext root root_state))
        = Some (Inr (VScalar (PNumber 2)),
                setVariable (Context 1 (Some root)) ''x'' (VScalar (PNumber 2))
                  (snd (createChildContext root root_state)))
   \<and> ''print'' \<notin> assigned ex_assign
   \<and> getVariable (Context 1 (Some root)) ''print''
          (setVariable (Context 1 (Some root)) ''x'' (VScalar (PNumber 2))
             (snd (createChildContext root root_state)))
        = Inr (VFunction (BuiltIn B_print 1))"
proof -
  let ?child = "Context 1 (Some root)"
  let ?s1 = "snd (createChildContext root root_state)"
  have r: "new_ExecutionContext None (empty_state host0) = (root, root_state)"
    by (simp add: root_def root_state_def)
  have a0: "address root = 0" by (simp add: eval_defs)
  have u: "getVariable root ''print'' ex_shadow_state = Inr (VScalar (PNumber 5))"
    by (simp add: eval_defs ex_shadow_state_def)
  have c: "createChildContext root ex_shadow_state
        = (?child, snd (createChildContext root ex_shadow_state))"
    by (simp add: eval_defs ex_shadow_state_def)
  have c1: "createChildContext root root_state = (?child, ?s1)"
    by (simp add: eval_defs)
  have n1: "nextContext ?s1 = 2" by (simp add: eval_defs)
  have run: "execute 2 (VariableDeclarationNode ''number'' ''print'' (LiteralNode (PNumber 5))) root
          ?s1
        = Some (Inr (VScalar (PNumber 5)), setVariable root ''print'' (VScalar (PNumber 5)) ?s1)"
    by (simp add: eval_defs)
  have run2: "execute 2 ex_assign ?child ?s1
        = Some (Inr (VScalar (PNumber 2)), setVariable ?child ''x'' (VScalar (PNumber 2)) ?s1)"
    by (simp add: eval_defs ex_assign_def)
  have na: "''print'' \<notin> assigned ex_assign" by (simp add: ex_assign_def)
  note t = every_frame_injects_builtins[where p=None and s="empty_state host0" and c=root
      and s'=root_state and q=root and u=ex_shadow_state and c'="?child"
      and u'="snd (createChildContext root ex_shadow_state)"
      and d="?child" and b=B_print
      and n=2 and nd="VariableDeclarationNode ''number'' ''print'' (LiteralNode (PNumber 5))"
      and x=root and v="?s1" and r="Inr (VScalar (PNumber 5))"
      and v'="setVariable root ''print'' (VScalar (PNumber 5)) ?s1" and e="?child"
      and m=2 and md=ex_assign and y="?child" and w="?s1" and r'="Inr (VScalar (PNumber 2))"
      and w'="setVariable ?child ''x'' (VScalar (PNumber 2)) ?s1" and nm="''print''"]
  note tc = every_frame_injects_builtins[where q=root and u=root_state and c'="?child"
      and u'="?s1"]
  from t[THEN conjunct1, THEN mp, OF r, THEN conjunct2, THEN conjunct2, THEN conjunct2] a0
  have rootb: "\<forall>b. getVariable root (builtin_name b) root_state = Inr (VFunction (BuiltIn b 0))"
    by simp
  have rt: "map (\<lambda>nm. getVariable root nm root_state)
         [''print'', ''typeOf'', ''now'', ''random'', ''isNaN'', ''abs'', ''sqrt'', ''floor'',
          ''ceil'', ''fetch'']
       = map (\<lambda>b. Inr (VFunction (BuiltIn b 0)))
           [B_print, B_typeOf, B_now, B_random, B_isNaN, B_abs, B_sqrt, B_floor, B_ceil, B_fetch]"
    using rootb[THEN spec, of B_print] rootb[THEN spec, of B_typeOf] rootb[THEN spec, of B_now]
      rootb[THEN spec, of B_random] rootb[THEN spec, of B_isNaN] rootb[THEN spec, of B_abs]
      rootb[THEN spec, of B_sqrt] rootb[THEN spec, of B_floor] rootb[THEN spec, of B_ceil]
      rootb[THEN spec, of B_fetch]
    by simp
  from t[THEN conjunct2, THEN conjunct1, THEN mp, OF c, THEN conjunct2, THEN conjunct2,
      THEN conjunct2]
  have childb: "\<forall>b. getVariable ?child (builtin_name b) (snd (createChildContext root ex_shadow_state))
      = Inr (VFunction (BuiltIn b 1))"
    by simp
  have ch: "map (\<lambda>nm. getVariable ?child nm (snd (createChildContext root ex_shadow_state)))
         [''print'', ''typeOf'', ''now'', ''random'', ''isNaN'', ''abs'', ''sqrt'', ''floor'',
          ''ceil'', ''fetch'']
       = map (\<lambda>b. Inr (VFunction (BuiltIn b 1)))
           [B_print, B_typeOf, B_now, B_random, B_isNaN, B_abs, B_sqrt, B_floor, B_ceil, B_fetch]"
    using childb[THEN spec, of B_print] childb[THEN spec, of B_typeOf]
      childb[THEN spec, of B_now] childb[THEN spec, of B_random] childb[THEN spec, of B_isNaN]
      childb[THEN spec, of B_abs] childb[THEN spec, of B_sqrt] childb[THEN spec, of B_floor]
      childb[THEN spec, of B_ceil] childb[THEN spec, of B_fetch]
    by simp
  from tc[THEN conjunct2, THEN conjunct1, THEN mp, OF c1, THEN conjunct2, THEN conjunct2,
      THEN conjunct1, THEN spec, of B_print]
  have own1: "variables (frames ?s1 1) (builtin_name B_print) = Some (VFunction (BuiltIn B_print 1))"
    by simp
  from t[THEN conjunct2, THEN conjunct2, THEN conjunct2, THEN conjunct1] run n1 a0
  have fr: "frames (setVariable root ''print'' (VScalar (PNumber 5)) ?s1) 1 = frames ?s1 1"
    by simp
  from t[where t="setVariable root ''print'' (VScalar (PNumber 5)) ?s1",
      THEN conjunct2, THEN conjunct2, THEN conjunct1] fr own1
  have later: "getVariable ?child ''print'' (setVariable root ''print'' (VScalar (PNumber 5)) ?s1)
        = Inr (VFunction (BuiltIn B_print 1))"
    by simp
  from t[THEN conjunct2, THEN conjunct2, THEN conjunct2, THEN conjunct2] run2 n1 na
  have keep: "variables (frames (setVariable ?child ''x'' (VScalar (PNumber 2)) ?s1) 1) ''print''
      = variables (frames ?s1 1) ''print''"
    by simp
  from t[where t="setVariable ?child ''x'' (VScalar (PNumber 2)) ?s1",
      THEN conjunct2, THEN conjunct2, THEN conjunct1] keep own1
  have self: "getVariable ?child ''print'' (setVariable ?child ''x'' (VScalar (PNumber 2)) ?s1)
        = Inr (VFunction (BuiltIn B_print 1))"
    by simp
  from r rt u c ch run later run2 na self show ?thesis by blast
qed

end
